theory Spec2Isabelle
  imports Complex_Main
begin

section \<open>Tensors as lists\<close>

text \<open>
  The environment of \<^verbatim>\<open>furniture_rl_sim_env.py\<close> keeps its per-environment data in
  torch tensors. A one-dimensional tensor is a list, a two-dimensional tensor a list of
  rows. The float32 and float64 values of poses, actions, forces and matrices are
  idealised as reals (no rounding, no NaN). The step counters are int32 tensors: their
  arithmetic wraps around, and a comparison of them with a Python number is carried out
  in the type the tensor library promotes both sides to.
\<close>

datatype error =
  AssertionError | IndexError | AttributeError | ValueError | RuntimeError | LinAlgError |
  OverflowError

text \<open>The value of an int32 computation, and of the cast of an integer to int32.\<close>

definition wrap32 :: "int \<Rightarrow> int" where
  "wrap32 x = (x + 2 ^ 31) mod 2 ^ 32 - 2 ^ 31"

text \<open>
  A Python integer handed to a tensor operation becomes a 64-bit scalar of the library; one
  that does not fit is refused.
\<close>

definition fits_int64 :: "int \<Rightarrow> bool" where
  "fits_int64 x \<longleftrightarrow> - (2 ^ 63) \<le> x \<and> x < 2 ^ 63"

definition fits_int32 :: "int \<Rightarrow> bool" where
  "fits_int32 x \<longleftrightarrow> - (2 ^ 31) \<le> x \<and> x < 2 ^ 31"

text \<open>
  The conversion of an integer to a binary floating-point format with a significand of
  \<open>p\<close> bits (24 for float32, 53 for float64): the integer is rounded to \<open>p\<close>
  significant bits, to the nearest value and to the even one of two nearest. The result
  is given as the integer it denotes. \<open>bit_length\<close> is the number of binary digits,
  as \<^verbatim>\<open>int.bit_length\<close>; \<open>round_to_even q n\<close> rounds to a multiple of \<open>q\<close>.
\<close>

fun bit_length :: "nat \<Rightarrow> nat" where
  "bit_length n = (if n = 0 then 0 else Suc (bit_length (n div 2)))"

declare bit_length.simps [simp del]

definition round_to_even :: "nat \<Rightarrow> nat \<Rightarrow> nat" where
  "round_to_even q n =
     (let r = n div q; m = n mod q
      in if 2 * m < q \<or> (2 * m = q \<and> even r) then r * q else (r + 1) * q)"

definition round_sig :: "nat \<Rightarrow> nat \<Rightarrow> nat" where
  "round_sig p n = round_to_even (2 ^ (bit_length n - p)) n"

definition to_float :: "nat \<Rightarrow> int \<Rightarrow> int" where
  "to_float p x = (if x < 0 then - int (round_sig p (nat (- x))) else int (round_sig p (nat x)))"

definition float32 :: "int \<Rightarrow> int" where
  "float32 x = to_float 24 x"

definition float64 :: "int \<Rightarrow> int" where
  "float64 x = to_float 53 x"

text \<open>\<^verbatim>\<open>t.unsqueeze(-1)\<close> on a one-dimensional tensor.\<close>

definition unsqueeze_last :: "'a list \<Rightarrow> 'a list list" where
  "unsqueeze_last xs = map (\<lambda>x. [x]) xs"

text \<open>\<^verbatim>\<open>t[:, i]\<close> read and written.\<close>

definition col :: "nat \<Rightarrow> 'a list list \<Rightarrow> 'a list" where
  "col i t = map (\<lambda>row. row ! i) t"

definition set_col :: "nat \<Rightarrow> 'a list \<Rightarrow> 'a list list \<Rightarrow> 'a list list" where
  "set_col i v t = map2 (\<lambda>row x. row[i := x]) t v"

text \<open>\<^verbatim>\<open>m.any(dim=0)\<close> for a mask of shape (rows, n), and \<^verbatim>\<open>m.any(dim=1)\<close>.\<close>

definition any_dim0 :: "nat \<Rightarrow> bool list list \<Rightarrow> bool list" where
  "any_dim0 n m = map (\<lambda>e. list_ex (\<lambda>row. row ! e) m) [0..<n]"

definition any_dim1 :: "bool list list \<Rightarrow> bool list" where
  "any_dim1 m = map (list_ex (\<lambda>b. b)) m"

text \<open>\<^verbatim>\<open>m.sum(dim=1)\<close> of a boolean tensor: the number of true entries of each row.\<close>

definition sum_dim1 :: "bool list list \<Rightarrow> int list" where
  "sum_dim1 m = map (\<lambda>row. int (length (filter (\<lambda>b. b) row))) m"

text \<open>\<^verbatim>\<open>torch.where(mask)[0]\<close>: the indices at which a one-dimensional mask holds.\<close>

definition where_true :: "bool list \<Rightarrow> nat list" where
  "where_true msk = filter (\<lambda>k. msk ! k) [0..<length msk]"

text \<open>\<^verbatim>\<open>t[idxs] = v\<close> with a tensor of (in-range) indices and one value for all of them.\<close>

definition index_fill :: "nat list \<Rightarrow> 'a \<Rightarrow> 'a list \<Rightarrow> 'a list" where
  "index_fill idxs v t = fold (\<lambda>k s. s[k := v]) idxs t"

text \<open>A two-dimensional tensor of shape (n, p).\<close>

definition shape :: "nat \<Rightarrow> nat \<Rightarrow> 'a list list \<Rightarrow> bool" where
  "shape n p t \<longleftrightarrow> length t = n \<and> list_all (\<lambda>row. length row = p) t"

section \<open>The environment\<close>

text \<open>
  The fields of \<^verbatim>\<open>FurnitureRLSimEnv\<close> (and of its base class \<^verbatim>\<open>FurnitureSimEnv\<close>)
  that the reward, termination, gripper, lamp-bulb, reset and perturbation code reads
  or writes. Values the source takes from configuration files that are not part of the
  repository snapshot (\<^verbatim>\<open>max_gripper_width\<close>, the simulation substep count) are
  fields like the others. \<^verbatim>\<open>_moving_bulbs\<close> is created by the first \<^verbatim>\<open>reset\<close> of a
  lamp environment only: before that the attribute does not exist (\<open>None\<close>).
\<close>

record env =
  num_envs :: nat
  furniture_name :: string
  manual_label :: bool
  manual_done :: bool
  max_env_steps :: int
  sim_steps :: nat
  env_steps :: "int list"
  last_grasp :: "real list"
  grasp_margin :: real
  max_gripper_width :: real
  moving_bulbs :: "bool list option"
  pairs_to_assemble :: "(nat \<times> nat) list"
  position_only :: "(nat \<times> nat) list"
  already_assembled :: "bool list list"
  max_force_magnitude :: real
  max_torque_magnitude :: real
  rigid_body_count :: nat
  rigid_body_index_by_env :: "nat list list"
  force_multiplier :: "real list"
  torque_multiplier :: "real list"
  rb_states :: "real list list"
  furniture_rb_indices :: "nat list list"
  franka_from_origin_mat :: "real list list"
  base_tag_from_robot_mat :: "real list list"

text \<open>
  The shapes the constructor establishes: \<^verbatim>\<open>env_steps\<close> and \<^verbatim>\<open>last_grasp\<close> have one
  entry per environment, \<^verbatim>\<open>already_assembled\<close> is (num_envs, number of pairs), and the
  constructor cannot finish with no environment (it reads \<^verbatim>\<open>self.envs[0]\<close>).
\<close>

definition wf_env :: "env \<Rightarrow> bool" where
  "wf_env s \<longleftrightarrow>
     0 < num_envs s \<and>
     length (env_steps s) = num_envs s \<and>
     length (last_grasp s) = num_envs s \<and>
     length (already_assembled s) = num_envs s \<and>
     list_all (\<lambda>row. length row = length (pairs_to_assemble s)) (already_assembled s) \<and>
     (case moving_bulbs s of None \<Rightarrow> True | Some mb \<Rightarrow> length mb = num_envs s)"

section \<open>Reward of the RL environment\<close>

text \<open>
  \<^verbatim>\<open>FurnitureRLSimEnv._reward\<close> compares the relative pose of every pair with the
  admissible assembled poses through \<^verbatim>\<open>C.is_similar_rot\<close> and \<^verbatim>\<open>C.is_similar_pos\<close> of
  the controller utilities, on poses read from the physics engine. Their boolean results,
  of shape (number of admissible poses, num_envs), are the input of the embedding: one
  \<open>pair_obs\<close> per pair of \<^verbatim>\<open>pairs_to_assemble\<close>.
\<close>

record pair_obs =
  similar_rot :: "bool list list"
  similar_pos :: "bool list list"

definition wf_pair_obs :: "env \<Rightarrow> (nat \<times> nat) \<Rightarrow> pair_obs \<Rightarrow> bool" where
  "wf_pair_obs s pair ob \<longleftrightarrow>
     list_all (\<lambda>row. length row = num_envs s) (similar_pos ob) \<and>
     (pair \<in> set (position_only s) \<or>
      (length (similar_rot ob) = length (similar_pos ob) \<and>
       list_all (\<lambda>row. length row = num_envs s) (similar_rot ob)))"

definition wf_obs :: "env \<Rightarrow> pair_obs list \<Rightarrow> bool" where
  "wf_obs s obs \<longleftrightarrow>
     length obs = length (pairs_to_assemble s) \<and>
     list_all (\<lambda>(pair, ob). wf_pair_obs s pair ob) (zip (pairs_to_assemble s) obs)"

text \<open>
  \<^verbatim>\<open>assembled_mask = similar_rot & similar_pos\<close>; for a position-only pair
  \<^verbatim>\<open>similar_rot\<close> is \<^verbatim>\<open>[True] * num_envs\<close>, broadcast against every row.
\<close>

definition assembled_mask :: "env \<Rightarrow> (nat \<times> nat) \<Rightarrow> pair_obs \<Rightarrow> bool list list" where
  "assembled_mask s pair ob =
     (if pair \<in> set (position_only s)
      then map (\<lambda>row. map2 (\<lambda>a b. a \<and> b) (replicate (num_envs s) True) row) (similar_pos ob)
      else map2 (map2 (\<lambda>a b. a \<and> b)) (similar_rot ob) (similar_pos ob))"

text \<open>
  One round of the loop over \<^verbatim>\<open>enumerate(self.pairs_to_assemble)\<close>, on the pair
  (\<open>newly_assembled_mask\<close>, \<open>already_assembled\<close>).
\<close>

definition reward_pair ::
  "env \<Rightarrow> pair_obs list \<Rightarrow> nat \<Rightarrow> bool list list \<times> bool list list \<Rightarrow> bool list list \<times> bool list list"
where
  "reward_pair s obs i st =
     (let newly = fst st; already = snd st;
          am = assembled_mask s (pairs_to_assemble s ! i) (obs ! i);
          newly' = set_col i (map2 (\<lambda>a b. a \<and> \<not> b) (any_dim0 (num_envs s) am) (col i already)) newly;
          already' = set_col i (map2 (\<lambda>a b. a \<or> b) (col i already) (col i newly')) already
      in (newly', already'))"

definition reward_loop :: "env \<Rightarrow> pair_obs list \<Rightarrow> bool list list \<times> bool list list" where
  "reward_loop s obs =
     fold (reward_pair s obs) [0..<length (pairs_to_assemble s)]
       (replicate (num_envs s) (replicate (length (pairs_to_assemble s)) False),
        already_assembled s)"

text \<open>
  \<^verbatim>\<open>assembled_mask.any(dim=0)\<close> at environment \<open>e\<close> for pair \<open>i\<close>: some admissible pose
  matches. A pair is newly assembled in an environment when it matches and its bit was not
  set before.
\<close>

definition pair_matches :: "env \<Rightarrow> pair_obs list \<Rightarrow> nat \<Rightarrow> nat \<Rightarrow> bool" where
  "pair_matches s obs i e =
     list_ex (\<lambda>row. row ! e) (assembled_mask s (pairs_to_assemble s ! i) (obs ! i))"

definition newly_assembled :: "env \<Rightarrow> pair_obs list \<Rightarrow> nat \<Rightarrow> bool" where
  "newly_assembled s obs e \<longleftrightarrow>
     (\<exists>j<length (pairs_to_assemble s). pair_matches s obs j e \<and> \<not> already_assembled s ! e ! j)"

text \<open>
  The result is the reward tensor of shape (num_envs, 1), or \<open>None\<close> where the source
  executes \<^verbatim>\<open>return print("Part assembled!")\<close>, whose value is Python's \<^verbatim>\<open>None\<close>.
  The assembly bits are written before either return.
\<close>

definition rl_reward :: "env \<Rightarrow> pair_obs list \<Rightarrow> env \<times> real list list option" where
  "rl_reward s obs =
     (let (newly, already') = reward_loop s obs;
          rewards = unsqueeze_last (map (\<lambda>b. if b then 1 else 0) (any_dim1 newly));
          s' = s\<lparr>already_assembled := already'\<rparr>
      in if manual_done s \<and> list_ex (list_ex (\<lambda>r. r = 1)) rewards
         then (s', None)
         else (s', Some rewards))"

section \<open>Termination and truncation\<close>

text \<open>
  \<^verbatim>\<open>FurnitureRLSimEnv._done\<close>: the pair (terminated, truncated), each (num_envs, 1).
  \<^verbatim>\<open>self.env_steps >= self.max_env_steps - 1\<close> compares an int32 tensor with a Python
  integer: the comparison is made in int32, on the scalar cast to it.
\<close>

definition rl_done :: "env \<Rightarrow> error + (bool list list \<times> bool list list)" where
  "rl_done s =
     (if manual_done s
      then Inr (replicate (num_envs s) [False], replicate (num_envs s) [False])
      else if \<not> fits_int64 (max_env_steps s - 1) then Inl RuntimeError
      else Inr (unsqueeze_last (map (\<lambda>c. c = int (length (pairs_to_assemble s)))
                                  (sum_dim1 (already_assembled s))),
                unsqueeze_last (map (\<lambda>c. c \<ge> wrap32 (max_env_steps s - 1)) (env_steps s))))"

section \<open>Random perturbation of parts\<close>

text \<open>
  \<^verbatim>\<open>_random_perturbation_of_parts\<close> draws four tensors with \<^verbatim>\<open>torch.rand\<close>: one
  number per part instance for the selection mask, and one per (environment, part) for the
  force direction, the force magnitude and the torque. The draws are the input of the
  embedding (the trailing dimension of size one is dropped).
\<close>

record perturb_draws =
  u_select :: "real list"
  u_theta :: "real list list"
  u_force :: "real list list"
  u_torque :: "real list list"

text \<open>\<^verbatim>\<open>t[msk]\<close> with a boolean mask over the first dimension.\<close>

definition mask_select :: "bool list \<Rightarrow> 'a list \<Rightarrow> 'a list" where
  "mask_select msk t = map fst (filter snd (zip t msk))"

text \<open>
  \<^verbatim>\<open>t[idxs] = vals\<close> with a tensor of indices: an index outside the tensor is an error,
  and of two writes to one index the later stands.
\<close>

definition index_put :: "nat list \<Rightarrow> 'a list \<Rightarrow> 'a list \<Rightarrow> error + 'a list" where
  "index_put idxs vals t =
     (if list_all (\<lambda>k. k < length t) idxs
      then Inr (fold (\<lambda>kv u. u[fst kv := snd kv]) (zip idxs vals) t)
      else Inl IndexError)"

text \<open>
  The result is the pair (\<open>all_forces\<close>, \<open>all_torques\<close>) handed to
  \<^verbatim>\<open>apply_rigid_body_force_tensors\<close>, each of shape (rigid_body_count, 3).
\<close>

definition random_perturbation_of_parts ::
  "env \<Rightarrow> real \<Rightarrow> real \<Rightarrow> perturb_draws \<Rightarrow> error + (real list list \<times> real list list)"
where
  "random_perturbation_of_parts s max_force max_torque d =
     (let part_rigid_body_idxs = concat (rigid_body_index_by_env s);
          selected_part_mask = map (\<lambda>u. u < 0.01) (u_select d);
          force_theta = map (map (\<lambda>u. u * 2 * pi)) (u_theta d);
          force_magnitude = map (map (\<lambda>u. u * max_force)) (u_force d);
          forces = map2 (map2 (\<lambda>m th. [m * cos th, m * sin th, 0])) force_magnitude force_theta;
          forces' = concat (map (\<lambda>row. map2 (\<lambda>v k. map (\<lambda>x. x * k) v) row (force_multiplier s)) forces);
          z_torques = map (map (\<lambda>u. max_torque * (u * 2 - 1))) (u_torque d);
          z_torques' = concat (map (\<lambda>row. map2 (\<lambda>z k. z * k) row (torque_multiplier s)) z_torques);
          torques = map (\<lambda>z. [0, 0, z]) z_torques';
          all_forces = replicate (rigid_body_count s) [0, 0, 0];
          all_torques = replicate (rigid_body_count s) [0, 0, 0];
          sel = mask_select selected_part_mask part_rigid_body_idxs
      in case index_put sel (mask_select selected_part_mask forces') all_forces of
           Inl e \<Rightarrow> Inl e
         | Inr frc \<Rightarrow>
             (case index_put sel (mask_select selected_part_mask torques) all_torques of
                Inl e \<Rightarrow> Inl e
              | Inr trq \<Rightarrow> Inr (frc, trq)))"

text \<open>
  The shapes of a call: \<^verbatim>\<open>rigid_body_index_by_env\<close> is (num_envs, number of parts)
  and holds indices of rigid bodies of the simulation, the multipliers have one entry per
  part, and the draws have the shapes the source asks \<^verbatim>\<open>torch.rand\<close> for.
\<close>

definition wf_perturb :: "env \<Rightarrow> perturb_draws \<Rightarrow> bool" where
  "wf_perturb s d \<longleftrightarrow>
     shape (num_envs s) (length (force_multiplier s)) (rigid_body_index_by_env s) \<and>
     length (torque_multiplier s) = length (force_multiplier s) \<and>
     list_all (list_all (\<lambda>k. k < rigid_body_count s)) (rigid_body_index_by_env s) \<and>
     length (u_select d) = length (concat (rigid_body_index_by_env s)) \<and>
     shape (num_envs s) (length (force_multiplier s)) (u_theta d) \<and>
     shape (num_envs s) (length (force_multiplier s)) (u_force d) \<and>
     shape (num_envs s) (length (force_multiplier s)) (u_torque d)"

text \<open>
  The rigid bodies a call selects, and the forces and torques it generates for all part
  instances before the selection.
\<close>

definition selected_bodies :: "env \<Rightarrow> perturb_draws \<Rightarrow> nat set" where
  "selected_bodies s d =
     set (mask_select (map (\<lambda>u. u < 0.01) (u_select d)) (concat (rigid_body_index_by_env s)))"

definition gen_forces :: "env \<Rightarrow> real \<Rightarrow> perturb_draws \<Rightarrow> real list list" where
  "gen_forces s max_force d =
     concat (map (\<lambda>row. map2 (\<lambda>v k. map (\<lambda>x. x * k) v) row (force_multiplier s))
       (map2 (map2 (\<lambda>m th. [m * cos th, m * sin th, 0]))
          (map (map (\<lambda>u. u * max_force)) (u_force d))
          (map (map (\<lambda>u. u * 2 * pi)) (u_theta d))))"

definition gen_torques :: "env \<Rightarrow> real \<Rightarrow> perturb_draws \<Rightarrow> real list list" where
  "gen_torques s max_torque d =
     map (\<lambda>z. [0, 0, z])
       (concat (map (\<lambda>row. map2 (\<lambda>z k. z * k) row (torque_multiplier s))
          (map (map (\<lambda>u. max_torque * (u * 2 - 1))) (u_torque d))))"

section \<open>One control tick\<close>

text \<open>
  \<^verbatim>\<open>_handle_bulb_rest_pose\<close>. The boolean tensor \<open>hand_bulb_close\<close> is the result of
  \<^verbatim>\<open>C.is_similar_pos\<close> on the bulb and hand positions read from the engine. The result
  is the updated environment and the pair the source returns.

  The gate \<^verbatim>\<open>self.env_steps > (self.max_env_steps / 2)\<close> compares the int32 counters with
  a Python float, which the tensor library does in float32. \<^verbatim>\<open>self.max_env_steps / 2\<close>
  is the quotient rounded to a float64 (Python raises \<^verbatim>\<open>OverflowError\<close> when it is out of
  range, that is from \<open>2^1024\<close> on), cast to float32 for the comparison; halving changes
  the exponent only, so the threshold is half of the horizon rounded twice. Beyond the
  range of float32 the cast is infinite, which compares with int32 counters as the
  rounded value does.
\<close>

definition half_overflows :: "int \<Rightarrow> bool" where
  "half_overflows m \<longleftrightarrow> 2 ^ 1025 \<le> \<bar>float64 m\<bar>"

definition halfway_threshold :: "int \<Rightarrow> real" where
  "halfway_threshold m = real_of_int (float32 (float64 m)) / 2"

definition handle_bulb_rest_pose ::
  "env \<Rightarrow> bool list \<Rightarrow> error + (env \<times> bool \<times> nat list option)"
where
  "handle_bulb_rest_pose s hand_bulb_close =
     (if furniture_name s \<noteq> ''lamp'' then Inr (s, False, None)
      else if half_overflows (max_env_steps s) then Inl OverflowError
      else if list_ex (\<lambda>c. real_of_int (float32 c) > halfway_threshold (max_env_steps s))
                (env_steps s)
      then Inr (s, False, None)
      else case moving_bulbs s of
        None \<Rightarrow> Inl AttributeError
      | Some mb \<Rightarrow>
          (let to_rest = replicate (num_envs s) True;
               to_rest' = map2 (\<lambda>a b. a \<and> \<not> b) to_rest mb;
               to_rest'' = map2 (\<lambda>a b. a \<and> \<not> b) to_rest' hand_bulb_close;
               env_idx_to_rest = where_true to_rest'';
               s' = s\<lparr>moving_bulbs := Some (index_fill (where_true (map Not to_rest'')) True mb)\<rparr>
           in if length env_idx_to_rest > 0
              then Inr (s', True, Some env_idx_to_rest)
              else Inr (s', False, None)))"

text \<open>
  The part of \<^verbatim>\<open>simulate_step\<close> that commands the gripper and holds the lamp bulb. The
  arm targets of the differential inverse kinematics controller and the physics step
  itself belong to the engine. \<open>grip_sep\<close> is the commanded gripper width of every
  environment; \<open>bulb_calls\<close> has one entry per substep of the loop: the argument of the
  \<^verbatim>\<open>_set_bulb_poses\<close> call of that substep, or \<open>None\<close> when the substep makes no call.
\<close>

record sim_out =
  grip_sep :: "real list"
  bulb_calls :: "nat list option list"

definition clamp_action :: "real list list \<Rightarrow> real list list" where
  "clamp_action a = map (map (\<lambda>x. min (max x (- 1)) 1)) a"

definition grip_width :: "env \<Rightarrow> real \<Rightarrow> real \<Rightarrow> real" where
  "grip_width s g l =
     (if sgn g \<noteq> sgn l \<and> \<bar>g\<bar> > grasp_margin s
      then (if g < 0 then max_gripper_width s else 0)
      else (if l < 0 then max_gripper_width s else 0))"

definition simulate_step :: "env \<Rightarrow> real list list \<Rightarrow> bool list \<Rightarrow> error + (env \<times> sim_out)" where
  "simulate_step s act hand_bulb_close =
     (let act' = clamp_action act;
          grasp = map last act';
          sep = map2 (grip_width s) grasp (last_grasp s);
          s1 = s\<lparr>last_grasp := grasp\<rparr>
      in case handle_bulb_rest_pose s1 hand_bulb_close of
           Inl e \<Rightarrow> Inl e
         | Inr (s2, any_bulbs_unsettled, rest_bulb_env_idxs) \<Rightarrow>
             Inr (s2, \<lparr>grip_sep = sep,
                       bulb_calls = replicate (sim_steps s2)
                                      (if any_bulbs_unsettled then rest_bulb_env_idxs else None)\<rparr>))"

text \<open>
  The bulb of environment \<open>e\<close> is reasserted in every substep of a tick, or in some
  substep of it.
\<close>

definition reasserted_each_substep :: "sim_out \<Rightarrow> nat \<Rightarrow> bool" where
  "reasserted_each_substep cmds e =
     list_all (\<lambda>c. case c of None \<Rightarrow> False | Some ks \<Rightarrow> e \<in> set ks) (bulb_calls cmds)"

definition reasserted_some_substep :: "sim_out \<Rightarrow> nat \<Rightarrow> bool" where
  "reasserted_some_substep cmds e =
     list_ex (\<lambda>c. case c of None \<Rightarrow> False | Some ks \<Rightarrow> e \<in> set ks) (bulb_calls cmds)"

text \<open>
  The halfway gate of \<^verbatim>\<open>_handle_bulb_rest_pose\<close>: the step counter of some environment
  exceeds half the horizon, in the float32 comparison of the handler.
\<close>

definition past_halfway :: "env \<Rightarrow> bool" where
  "past_halfway s =
     list_ex (\<lambda>c. real_of_int (float32 c) > halfway_threshold (max_env_steps s)) (env_steps s)"

text \<open>
  The mask \<open>to_rest\<close> of the handler, and when a bulb counts as released: the halfway
  gate is open, or the bulb is marked in \<^verbatim>\<open>_moving_bulbs\<close>.
\<close>

definition to_rest_of :: "env \<Rightarrow> bool list \<Rightarrow> bool list \<Rightarrow> bool list" where
  "to_rest_of s mb c =
     map2 (\<lambda>a b. a \<and> \<not> b) (map2 (\<lambda>a b. a \<and> \<not> b) (replicate (num_envs s) True) mb) c"

definition bulb_released :: "env \<Rightarrow> nat \<Rightarrow> bool" where
  "bulb_released s e \<longleftrightarrow>
     past_halfway s \<or> (case moving_bulbs s of None \<Rightarrow> False | Some mb \<Rightarrow> e < length mb \<and> mb ! e)"

text \<open>The step counters are int32 values and \<open>k\<close> more ticks do not overflow them.\<close>

definition no_overflow :: "env \<Rightarrow> nat \<Rightarrow> bool" where
  "no_overflow s k \<longleftrightarrow> list_all (\<lambda>c. - (2 ^ 31) \<le> c \<and> c + int k < 2 ^ 31) (env_steps s)"

text \<open>
  \<^verbatim>\<open>FurnitureRLSimEnv.step\<close>. What the engine reports during the tick is the input:
  the action, the bulb/hand proximity, the pose comparisons of \<^verbatim>\<open>_reward\<close>, and the
  random draws when \<^verbatim>\<open>sample_perturbations\<close> is set (\<open>None\<close> when it is not).
  The observation dictionary is a read of engine buffers and is left out.
\<close>

record step_in =
  action :: "real list list"
  hand_bulb_close :: "bool list"
  pose_obs :: "pair_obs list"
  sample_perturbations :: "perturb_draws option"

record step_out =
  commands :: sim_out
  reward :: "real list list option"
  terminated :: "bool list list"
  truncated :: "bool list list"
  applied_forces :: "(real list list \<times> real list list) option"

definition wf_step_in :: "env \<Rightarrow> step_in \<Rightarrow> bool" where
  "wf_step_in s inp \<longleftrightarrow>
     length (action inp) = num_envs s \<and>
     list_all (\<lambda>row. row \<noteq> []) (action inp) \<and>
     length (hand_bulb_close inp) = num_envs s \<and>
     wf_obs s (pose_obs inp) \<and>
     (case sample_perturbations inp of None \<Rightarrow> True | Some d \<Rightarrow> wf_perturb s d)"

definition rl_step :: "env \<Rightarrow> step_in \<Rightarrow> error + (env \<times> step_out)" where
  "rl_step s inp =
     (case simulate_step s (action inp) (hand_bulb_close inp) of
        Inl e \<Rightarrow> Inl e
      | Inr (s1, cmds) \<Rightarrow>
          (let (s2, rew) = rl_reward s1 (pose_obs inp)
           in case rl_done s2 of
                Inl e \<Rightarrow> Inl e
              | Inr (term, trunc) \<Rightarrow>
                  (let s3 = s2\<lparr>env_steps := map (\<lambda>c. wrap32 (c + 1)) (env_steps s2)\<rparr>
                   in case sample_perturbations inp of
                        None \<Rightarrow>
                          Inr (s3, \<lparr>commands = cmds, reward = rew, terminated = term,
                                    truncated = trunc, applied_forces = None\<rparr>)
                      | Some d \<Rightarrow>
                          (case random_perturbation_of_parts s3 (max_force_magnitude s3)
                                  (max_torque_magnitude s3) d of
                             Inl e \<Rightarrow> Inl e
                           | Inr ft \<Rightarrow>
                               Inr (s3, \<lparr>commands = cmds, reward = rew, terminated = term,
                                         truncated = trunc, applied_forces = Some ft\<rparr>)))))"

section \<open>Reset\<close>

text \<open>
  An index tensor addresses environments as Python does: a negative index counts from
  the end, and an index outside the tensor is an error.
\<close>

definition norm_index :: "nat \<Rightarrow> int \<Rightarrow> nat option" where
  "norm_index n k =
     (if 0 \<le> k \<and> k < int n then Some (nat k)
      else if - int n \<le> k \<and> k < 0 then Some (nat (k + int n))
      else None)"

text \<open>
  \<^verbatim>\<open>FurnitureRLSimEnv.reset\<close>. The argument is \<open>None\<close> when \<^verbatim>\<open>env_idxs\<close> is omitted.
  \<^verbatim>\<open>_reset_frankas\<close> and \<^verbatim>\<open>_reset_parts_multiple\<close> write joint and part poses into
  engine buffers; of them the embedding keeps the two assertions on what the engine
  reports (\<open>dof_state_ok\<close>, \<open>dof_target_ok\<close>), which stand between the clearing of the
  assembly bits and the zeroing of the step counters.
\<close>

record reset_in =
  dof_state_ok :: bool
  dof_target_ok :: bool

definition rl_reset :: "env \<Rightarrow> int list option \<Rightarrow> reset_in \<Rightarrow> error + env" where
  "rl_reset s env_idxs_arg rin =
     (let env_idxs = (case env_idxs_arg of None \<Rightarrow> map int [0..<num_envs s] | Some ks \<Rightarrow> ks)
      in if \<not> length env_idxs > 0 then Inl AssertionError
         else case those (map (norm_index (num_envs s)) env_idxs) of
           None \<Rightarrow> Inl IndexError
         | Some ks \<Rightarrow>
             (let s1 = s\<lparr>already_assembled :=
                          fold (\<lambda>k t. t[k := replicate (length (t ! k)) False]) ks (already_assembled s)\<rparr>
              in if \<not> dof_state_ok rin then Inl AssertionError
                 else if \<not> dof_target_ok rin then Inl AssertionError
                 else
                   (let s2 = s1\<lparr>env_steps := index_fill ks 0 (env_steps s1)\<rparr>
                    in if furniture_name s2 = ''lamp''
                       then Inr (s2\<lparr>moving_bulbs := Some (replicate (num_envs s2) False)\<rparr>)
                       else Inr s2)))"

section \<open>Runs\<close>

text \<open>
  A caller drives the environment by \<^verbatim>\<open>step\<close> and \<^verbatim>\<open>reset\<close> calls. A run ends at the
  first call that raises.
\<close>

datatype event = Step step_in | Reset "int list option" reset_in

fun exec :: "env \<Rightarrow> event list \<Rightarrow> error + env" where
  "exec s [] = Inr s"
| "exec s (Step inp # evs) =
     (case rl_step s inp of Inl e \<Rightarrow> Inl e | Inr (s', out) \<Rightarrow> exec s' evs)"
| "exec s (Reset idxs rin # evs) =
     (case rl_reset s idxs rin of Inl e \<Rightarrow> Inl e | Inr s' \<Rightarrow> exec s' evs)"

fun run_steps :: "env \<Rightarrow> step_in list \<Rightarrow> error + (env \<times> step_out list)" where
  "run_steps s [] = Inr (s, [])"
| "run_steps s (inp # inps) =
     (case rl_step s inp of
        Inl e \<Rightarrow> Inl e
      | Inr (s', out) \<Rightarrow>
          (case run_steps s' inps of Inl e \<Rightarrow> Inl e | Inr (s'', outs) \<Rightarrow> Inr (s'', out # outs)))"

text \<open>The environments a \<^verbatim>\<open>reset\<close> call names, and the inputs a run is defined on.\<close>

definition named_envs :: "nat \<Rightarrow> int list option \<Rightarrow> nat set" where
  "named_envs n env_idxs_arg =
     (case env_idxs_arg of
        None \<Rightarrow> {e. e < n}
      | Some ks \<Rightarrow> {e. Some e \<in> set (map (norm_index n) ks)})"

fun resets :: "nat \<Rightarrow> event \<Rightarrow> nat \<Rightarrow> bool" where
  "resets n (Step inp) e = False"
| "resets n (Reset idxs rin) e = (e \<in> named_envs n idxs)"

fun wf_event :: "env \<Rightarrow> event \<Rightarrow> bool" where
  "wf_event s (Step inp) = wf_step_in s inp"
| "wf_event s (Reset idxs rin) = True"

section \<open>Part poses and the reward of the base class\<close>

text \<open>
  \<^verbatim>\<open>t.reshape(n, -1)\<close> of a three-dimensional tensor: the entries in row-major order,
  cut into \<open>n\<close> rows of equal length. torch refuses \<open>n = 0\<close> and a number of entries
  that \<open>n\<close> does not divide.
\<close>

definition reshape_rows :: "nat \<Rightarrow> 'a list list list \<Rightarrow> error + 'a list list" where
  "reshape_rows n t =
     (let flat = concat (map concat t)
      in if n = 0 \<or> length flat mod n \<noteq> 0 then Inl RuntimeError
         else Inr (map (\<lambda>r. take (length flat div n) (drop (r * (length flat div n)) flat)) [0..<n]))"

text \<open>\<^verbatim>\<open>self.rb_states[self.furniture_rb_indices, :7]\<close>.\<close>

definition gather_poses :: "real list list \<Rightarrow> nat list list \<Rightarrow> error + real list list list" where
  "gather_poses rb idx =
     (if list_all (list_all (\<lambda>k. k < length rb)) idx
      then Inr (map (map (\<lambda>k. take 7 (rb ! k))) idx)
      else Inl IndexError)"

text \<open>
  \<^verbatim>\<open>FurnitureSimEnv.get_parts_poses\<close>. The conversions of poses to the robot and the
  AprilTag frame (\<^verbatim>\<open>sim_pose_to_robot_pose\<close>, \<^verbatim>\<open>sim_pose_to_april_pose\<close>) go through
  the controller utilities and are parameters. Every branch returns one tensor.
\<close>

definition get_parts_poses ::
  "(real list list list \<Rightarrow> real list list list) \<Rightarrow> (real list list list \<Rightarrow> real list list list) \<Rightarrow>
   env \<Rightarrow> bool \<Rightarrow> bool \<Rightarrow> error + real list list"
where
  "get_parts_poses to_robot to_april s sim_coord robot_coord =
     (case gather_poses (rb_states s) (furniture_rb_indices s) of
        Inl e \<Rightarrow> Inl e
      | Inr parts_poses \<Rightarrow>
          if sim_coord then reshape_rows (num_envs s) parts_poses
          else if robot_coord then reshape_rows (num_envs s) (to_robot parts_poses)
          else reshape_rows (num_envs s) (to_april parts_poses))"

definition wf_poses :: "env \<Rightarrow> nat \<Rightarrow> bool" where
  "wf_poses s num_parts \<longleftrightarrow>
     0 < num_envs s \<and>
     shape (num_envs s) num_parts (furniture_rb_indices s) \<and>
     list_all (list_all (\<lambda>k. k < length (rb_states s))) (furniture_rb_indices s) \<and>
     list_all (\<lambda>row. length row = 13) (rb_states s)"

text \<open>
  \<^verbatim>\<open>a, b = t\<close> iterates over the first dimension of a tensor and needs exactly two rows.
\<close>

definition unpack_pair :: "'a list \<Rightarrow> error + ('a \<times> 'a)" where
  "unpack_pair t = (case t of [a, b] \<Rightarrow> Inr (a, b) | _ \<Rightarrow> Inl ValueError)"

text \<open>
  \<^verbatim>\<open>FurnitureSimEnv._reward\<close>, the reward of the base class. \<^verbatim>\<open>compute_assemble\<close>
  belongs to the furniture catalogue and is a parameter: from the environment index and
  the two values the loop hands it to a reward, or an error. (\<^verbatim>\<open>np_step_out\<close> only
  changes the container of the result.)
\<close>

fun base_reward_rows ::
  "(nat \<Rightarrow> real \<Rightarrow> real \<Rightarrow> error + real) \<Rightarrow> real list \<Rightarrow> real list \<Rightarrow> nat list \<Rightarrow> error + real list list"
where
  "base_reward_rows compute_assemble parts_poses founds [] = Inr []"
| "base_reward_rows compute_assemble parts_poses founds (env_idx # rest) =
     (if env_idx < length parts_poses \<and> env_idx < length founds
      then (case compute_assemble env_idx (parts_poses ! env_idx) (founds ! env_idx) of
              Inl e \<Rightarrow> Inl e
            | Inr r \<Rightarrow>
                (case base_reward_rows compute_assemble parts_poses founds rest of
                   Inl e \<Rightarrow> Inl e
                 | Inr rs \<Rightarrow> Inr ([r] # rs)))
      else Inl IndexError)"

definition base_reward ::
  "(nat \<Rightarrow> real \<Rightarrow> real \<Rightarrow> error + real) \<Rightarrow>
   (real list list list \<Rightarrow> real list list list) \<Rightarrow> (real list list list \<Rightarrow> real list list list) \<Rightarrow>
   env \<Rightarrow> error + real list list"
where
  "base_reward compute_assemble to_robot to_april s =
     (if manual_label s then Inr (replicate (num_envs s) [0])
      else case get_parts_poses to_robot to_april s True False of
        Inl e \<Rightarrow> Inl e
      | Inr t \<Rightarrow>
          (case unpack_pair t of
             Inl e \<Rightarrow> Inl e
           | Inr (parts_poses, founds) \<Rightarrow>
               base_reward_rows compute_assemble parts_poses founds [0..<num_envs s]))"

section \<open>Frame transforms\<close>

text \<open>
  A homogeneous pose is a 4 x 4 matrix, a list of four rows. \<^verbatim>\<open>A @ B\<close> is the matrix
  product. \<^verbatim>\<open>np.linalg.inv\<close> is numpy's: in exact arithmetic it returns the inverse,
  computed here by cofactors, and raises \<^verbatim>\<open>LinAlgError\<close> on a singular matrix.
\<close>

definition is_mat4 :: "real list list \<Rightarrow> bool" where
  "is_mat4 m \<longleftrightarrow> length m = 4 \<and> list_all (\<lambda>row. length row = 4) m"

definition ncols :: "real list list \<Rightarrow> nat" where
  "ncols m = (case m of [] \<Rightarrow> 0 | row # _ \<Rightarrow> length row)"

definition matmul :: "real list list \<Rightarrow> real list list \<Rightarrow> real list list" where
  "matmul a b = map (\<lambda>row. map (\<lambda>j. sum_list (map2 (\<lambda>x y. x * y) row (col j b))) [0..<ncols b]) a"

definition identity4 :: "real list list" where
  "identity4 = [[1, 0, 0, 0], [0, 1, 0, 0], [0, 0, 1, 0], [0, 0, 0, 1]]"

definition del :: "nat \<Rightarrow> 'a list \<Rightarrow> 'a list" where
  "del k xs = take k xs @ drop (Suc k) xs"

fun det :: "real list list \<Rightarrow> real" where
  "det [] = 1"
| "det (row # rows) =
     sum_list (map (\<lambda>j. (- 1) ^ j * row ! j * det (map (del j) rows)) [0..<length row])"

definition cofactor :: "real list list \<Rightarrow> nat \<Rightarrow> nat \<Rightarrow> real" where
  "cofactor m i j = (- 1) ^ (i + j) * det (map (del j) (del i m))"

definition linalg_inv :: "real list list \<Rightarrow> error + real list list" where
  "linalg_inv m =
     (if det m = 0 then Inl LinAlgError
      else Inr (map (\<lambda>i. map (\<lambda>j. cofactor m j i / det m) [0..<length m]) [0..<length m]))"

text \<open>The two matrix properties and the two conversions of \<^verbatim>\<open>FurnitureSimEnv\<close>.\<close>

definition april_to_sim_mat :: "env \<Rightarrow> real list list" where
  "april_to_sim_mat s = matmul (franka_from_origin_mat s) (base_tag_from_robot_mat s)"

definition sim_to_april_mat :: "env \<Rightarrow> error + real list list" where
  "sim_to_april_mat s =
     (case linalg_inv (base_tag_from_robot_mat s) of
        Inl e \<Rightarrow> Inl e
      | Inr bi \<Rightarrow>
          (case linalg_inv (franka_from_origin_mat s) of
             Inl e \<Rightarrow> Inl e
           | Inr fi \<Rightarrow> Inr (matmul bi fi)))"

definition april_coord_to_sim_coord :: "env \<Rightarrow> real list list \<Rightarrow> real list list" where
  "april_coord_to_sim_coord s april_coord_mat = matmul (april_to_sim_mat s) april_coord_mat"

definition sim_coord_to_april_coord :: "env \<Rightarrow> real list list \<Rightarrow> error + real list list" where
  "sim_coord_to_april_coord s sim_coord_mat =
     (case sim_to_april_mat s of
        Inl e \<Rightarrow> Inl e
      | Inr m \<Rightarrow> Inr (matmul m sim_coord_mat))"

section \<open>Example environments\<close>

text \<open>
  A round-table environment with two parallel environments, as the constructor leaves it
  at low randomness (pairs and multipliers as in the source), with the counter of
  environment 0 one tick before the horizon of three ticks.
\<close>

definition ex_env :: env where
  "ex_env =
     \<lparr>num_envs = 2, furniture_name = ''round_table'', manual_label = False, manual_done = False,
      max_env_steps = 3, sim_steps = 2, env_steps = [2, 0], last_grasp = [- 1, - 1],
      grasp_margin = 0.02 - 0.001, max_gripper_width = 0.08, moving_bulbs = None,
      pairs_to_assemble = [(0, 1), (1, 2)], position_only = [],
      already_assembled = [[False, False], [False, False]],
      max_force_magnitude = 0.2, max_torque_magnitude = 0.007, rigid_body_count = 8,
      rigid_body_index_by_env = [[1, 2, 3], [5, 6, 7]],
      force_multiplier = [30, 4, 20], torque_multiplier = [60, 4, 10],
      rb_states = replicate 8 (replicate 13 0), furniture_rb_indices = [[1, 2, 3], [5, 6, 7]],
      franka_from_origin_mat = [[1, 0, 0, - 0.3], [0, 1, 0, 0], [0, 0, 1, 0.43], [0, 0, 0, 1]],
      base_tag_from_robot_mat = [[0, - 1, 0, 0.2], [1, 0, 0, 0.1], [0, 0, 1, 0], [0, 0, 0, 1]]\<rparr>"

text \<open>The same environment in manual mode, and a lamp environment after a reset.\<close>

definition ex_manual :: env where
  "ex_manual = ex_env\<lparr>manual_label := True, manual_done := True\<rparr>"

definition ex_lamp :: env where
  "ex_lamp =
     ex_env\<lparr>furniture_name := ''lamp'', max_env_steps := 10, env_steps := [0, 6],
            moving_bulbs := Some [False, False], pairs_to_assemble := [(0, 1), (0, 2)],
            force_multiplier := [8, 15, 30], torque_multiplier := [16, 20, 60]\<rparr>"

text \<open>
  One admissible pose per pair. In \<open>ob_first\<close> the pair matches in environment 0 only,
  in \<open>ob_none\<close> nowhere.
\<close>

definition ob_first :: pair_obs where
  "ob_first = \<lparr>similar_rot = [[True, False]], similar_pos = [[True, True]]\<rparr>"

definition ob_none :: pair_obs where
  "ob_none = \<lparr>similar_rot = [[False, False]], similar_pos = [[True, False]]\<rparr>"

text \<open>
  Ticks with an axis-angle action (seven numbers per environment, the last the grasp
  command): both pairs snap together in environment 0, or nothing matches.
\<close>

definition in_both :: step_in where
  "in_both =
     \<lparr>action = [[0, 0, 0, 0, 0, 0, 1], [0, 0, 0, 0, 0, 0, - 1]],
      hand_bulb_close = [False, False], pose_obs = [ob_first, ob_first],
      sample_perturbations = None\<rparr>"

definition in_none :: step_in where
  "in_none =
     \<lparr>action = [[0, 0, 0, 0, 0, 0, 1], [0, 0, 0, 0, 0, 0, - 1]],
      hand_bulb_close = [False, False], pose_obs = [ob_none, ob_none],
      sample_perturbations = None\<rparr>"

text \<open>
  An environment in the middle of an episode, with one pair latched in each environment,
  an engine that accepts the joint states of a reset, and a run that resets environment 1
  (addressed from the end, as index -1) between two ticks.
\<close>

definition ex_latched :: env where
  "ex_latched = ex_env\<lparr>env_steps := [1, 2], already_assembled := [[True, False], [False, True]]\<rparr>"

definition reset_ok :: reset_in where
  "reset_ok = \<lparr>dof_state_ok = True, dof_target_ok = True\<rparr>"

definition ex_run :: "event list" where
  "ex_run = [Step in_none, Reset (Some [- 1]) reset_ok, Step in_none]"

text \<open>
  A lamp environment at the start of an episode, a tick on which the hand is at the bulb
  of environment 1, and ticks that differ in the grasp command of environment 0 only.
\<close>

definition ex_lamp_start :: env where
  "ex_lamp_start = ex_lamp\<lparr>env_steps := [0, 0]\<rparr>"

definition in_touch :: step_in where
  "in_touch = in_none\<lparr>hand_bulb_close := [False, True]\<rparr>"

text \<open>
  The lamp environment after the tick \<open>in_touch\<close>, and after a following reset of
  environment 0 alone.
\<close>

definition ex_lamp_touched :: env where
  "ex_lamp_touched =
     ex_lamp_start\<lparr>env_steps := [1, 1], last_grasp := [1, - 1],
                    moving_bulbs := Some [False, True]\<rparr>"

definition ex_lamp_reset0 :: env where
  "ex_lamp_reset0 = ex_lamp_touched\<lparr>env_steps := [0, 1], moving_bulbs := Some [False, False]\<rparr>"

definition in_grasp :: "real \<Rightarrow> step_in" where
  "in_grasp g = in_none\<lparr>action := [[0, 0, 0, 0, 0, 0, g], [0, 0, 0, 0, 0, 0, - 1]]\<rparr>"

text \<open>
  Environments at the edge of the number formats: a horizon of \<open>2^31 + 1\<close> steps, a lamp
  environment with a horizon of \<open>2^25\<close> steps one step past \<open>2^24\<close>, and a lamp
  environment whose first counter holds the largest int32 value.
\<close>

definition ex_far_horizon :: env where
  "ex_far_horizon = ex_env\<lparr>max_env_steps := 2147483649, env_steps := [1, 2]\<rparr>"

definition ex_lamp_long :: env where
  "ex_lamp_long = ex_lamp\<lparr>max_env_steps := 33554432, env_steps := [16777217, 0]\<rparr>"

definition ex_lamp_wrap :: env where
  "ex_lamp_wrap = ex_lamp\<lparr>env_steps := [2147483647, 0]\<rparr>"

text \<open>
  Draws that select the first part of environment 0 only (rigid body 1), with force
  direction 0, half the force ceiling and half the torque ceiling.
\<close>

definition ex_draws :: perturb_draws where
  "ex_draws =
     \<lparr>u_select = [0.005, 0.5, 0.5, 0.5, 0.5, 0.5],
      u_theta = [[0, 0, 0], [0, 0, 0]],
      u_force = [[0.5, 0.5, 0.5], [0.5, 0.5, 0.5]],
      u_torque = [[0.75, 0.75, 0.75], [0.75, 0.75, 0.75]]\<rparr>"

text \<open>An environment of the base class with a single environment and manual labelling.\<close>

definition ex_single :: env where
  "ex_single =
     ex_env\<lparr>num_envs := 1, manual_label := True, env_steps := [0], last_grasp := [- 1],
            already_assembled := [[False, False]], rigid_body_index_by_env := [[1, 2, 3]],
            furniture_rb_indices := [[1, 2, 3]]\<rparr>"

text \<open>A pose in the AprilTag frame.\<close>

definition ex_pose :: "real list list" where
  "ex_pose = [[1, 0, 0, 0.1], [0, 0, - 1, 0.2], [0, 1, 0, 0.3], [0, 0, 0, 1]]"

section \<open>Facts about integer casts and conversions to floating point\<close>

lemma wrap32_id: "- (2 ^ 31) \<le> x \<Longrightarrow> x < 2 ^ 31 \<Longrightarrow> wrap32 x = x"
  by (simp add: wrap32_def)

lemma fits_int32_int64: "fits_int32 x \<Longrightarrow> fits_int64 x"
  by (simp add: fits_int32_def fits_int64_def)

lemma bit_length_0: "bit_length 0 = 0"
  by (simp add: bit_length.simps)

lemma bit_length_pos: "0 < n \<Longrightarrow> bit_length n = Suc (bit_length (n div 2))"
  by (subst bit_length.simps) simp

lemma bit_length_numeral:
  "bit_length (numeral k) = Suc (bit_length (numeral k div 2))"
  "bit_length (Suc 0) = 1" "bit_length 1 = 1"
  by (simp_all add: bit_length_pos bit_length_0)

lemma bit_length_less: "n < 2 ^ bit_length n"
proof (induction n rule: bit_length.induct)
  case (1 n)
  show ?case
  proof (cases "n = 0")
    case True
    then show ?thesis by (simp add: bit_length_0)
  next
    case False
    have "n div 2 < 2 ^ bit_length (n div 2)" using "1.IH"[OF False] .
    then have "n < 2 * 2 ^ bit_length (n div 2)" by linarith
    then show ?thesis using False by (simp add: bit_length_pos)
  qed
qed

lemma bit_length_ge: "0 < n \<Longrightarrow> 2 ^ (bit_length n - 1) \<le> n"
proof (induction n rule: bit_length.induct)
  case (1 n)
  then have nz: "n \<noteq> 0" by simp
  show ?case
  proof (cases "n div 2 = 0")
    case True
    then have "bit_length n = 1" using nz by (simp add: bit_length_pos bit_length_0)
    then show ?thesis using nz by simp
  next
    case False
    then have "2 ^ (bit_length (n div 2) - 1) \<le> n div 2" using "1.IH"[OF nz] by simp
    then have "2 * 2 ^ (bit_length (n div 2) - 1) \<le> n" by linarith
    moreover have "bit_length (n div 2) = Suc (bit_length (n div 2) - 1)"
      using False by (simp add: bit_length_pos[of "n div 2"])
    ultimately have "2 ^ bit_length (n div 2) \<le> n"
      by (metis power_Suc)
    then show ?thesis using nz by (simp add: bit_length_pos)
  qed
qed

lemma bit_length_mono: "m \<le> n \<Longrightarrow> bit_length m \<le> bit_length n"
proof (rule ccontr)
  assume le: "m \<le> n" and gt: "\<not> bit_length m \<le> bit_length n"
  then have lt: "bit_length n \<le> bit_length m - 1" by simp
  have pos: "0 < m" using gt by (cases "m = 0") (simp_all add: bit_length_0)
  have "n < 2 ^ bit_length n" by (rule bit_length_less)
  also have "\<dots> \<le> (2::nat) ^ (bit_length m - 1)" using lt by (simp add: power_increasing)
  also have "\<dots> \<le> m" using pos by (rule bit_length_ge)
  finally show False using le by simp
qed

lemma round_to_even_mult: "0 < q \<Longrightarrow> round_to_even q (k * q) = k * q"
  by (simp add: round_to_even_def)

lemma round_to_even_bounds:
  "(x div q) * q \<le> round_to_even q x" "round_to_even q x \<le> (x div q + 1) * q"
  by (simp_all add: round_to_even_def Let_def)

lemma round_to_even_mono:
  assumes "0 < q" "n \<le> n'"
  shows "round_to_even q n \<le> round_to_even q n'"
proof -
  have d: "n div q \<le> n' div q" using assms(2) by (rule div_le_mono)
  show ?thesis
  proof (cases "n div q = n' div q")
    case False
    then have "n div q + 1 \<le> n' div q" using d by simp
    then have "(n div q + 1) * q \<le> (n' div q) * q" by (rule mult_le_mono1)
    then show ?thesis
      using round_to_even_bounds(2)[of q n] round_to_even_bounds(1)[of n' q] by linarith
  next
    case True
    have "n = n div q * q + n mod q" by simp
    moreover have "n' = n div q * q + n' mod q" unfolding True by simp
    ultimately have "n mod q \<le> n' mod q" using assms(2) by linarith
    then show ?thesis using True unfolding round_to_even_def Let_def
      by (simp split: if_splits)
  qed
qed

text \<open>Rounding to \<open>p\<close> significant bits is monotone, also across a power of two.\<close>

lemma round_sig_mono:
  assumes "0 < p" "n \<le> n'"
  shows "round_sig p n \<le> round_sig p n'"
proof (cases "bit_length n = bit_length n'")
  case True
  then show ?thesis unfolding round_sig_def using assms(2) by (simp add: round_to_even_mono)
next
  case False
  then have lt: "bit_length n < bit_length n'" using bit_length_mono[OF assms(2)] by simp
  then have pos: "0 < n'" by (cases "n' = 0") (simp_all add: bit_length_0)
  let ?L = "bit_length n" and ?L' = "bit_length n'"
  have a: "n \<le> 2 ^ ?L" using bit_length_less[of n] by simp
  have b: "(2::nat) ^ (?L' - 1) \<le> n'" using pos by (rule bit_length_ge)
  have "(2::nat) ^ ?L = 2 ^ (?L - (?L - p)) * 2 ^ (?L - p)"
    by (simp flip: power_add)
  then have "round_to_even (2 ^ (?L - p)) (2 ^ ?L) = 2 ^ ?L"
    using round_to_even_mult[of "2 ^ (?L - p)" "2 ^ (?L - (?L - p))"] by simp
  then have 1: "round_sig p n \<le> 2 ^ ?L"
    unfolding round_sig_def using round_to_even_mono[OF _ a, of "2 ^ (?L - p)"] by simp
  have "?L' - p \<le> ?L' - 1" using assms(1) by simp
  then have "(2::nat) ^ (?L' - 1) = 2 ^ (?L' - 1 - (?L' - p)) * 2 ^ (?L' - p)"
    by (simp flip: power_add)
  then have "round_to_even (2 ^ (?L' - p)) (2 ^ (?L' - 1)) = 2 ^ (?L' - 1)"
    using round_to_even_mult[of "2 ^ (?L' - p)" "2 ^ (?L' - 1 - (?L' - p))"] by simp
  then have 2: "2 ^ (?L' - 1) \<le> round_sig p n'"
    unfolding round_sig_def using round_to_even_mono[OF _ b, of "2 ^ (?L' - p)"] by simp
  have "(2::nat) ^ ?L \<le> 2 ^ (?L' - 1)" using lt by (simp add: power_increasing)
  then show ?thesis using 1 2 by linarith
qed

lemma to_float_mono:
  assumes "0 < p" "x \<le> y"
  shows "to_float p x \<le> to_float p y"
proof -
  have a: "round_sig p (nat x) \<le> round_sig p (nat y)"
    using assms by (intro round_sig_mono) simp_all
  have b: "round_sig p (nat (- y)) \<le> round_sig p (nat (- x))"
    using assms by (intro round_sig_mono) simp_all
  show ?thesis using a b assms(2) by (simp add: to_float_def)
qed

text \<open>An integer of at most \<open>p\<close> bits is converted exactly.\<close>

lemma round_sig_exact:
  assumes "n < 2 ^ p"
  shows "round_sig p n = n"
proof -
  have "bit_length n \<le> p"
  proof (rule ccontr)
    assume c: "\<not> bit_length n \<le> p"
    then have "0 < n" by (cases "n = 0") (simp_all add: bit_length_0)
    have "(2::nat) ^ p \<le> 2 ^ (bit_length n - 1)" using c by (simp add: power_increasing)
    also have "\<dots> \<le> n" using \<open>0 < n\<close> by (rule bit_length_ge)
    finally show False using assms by simp
  qed
  then show ?thesis by (simp add: round_sig_def round_to_even_def)
qed

lemma to_float_exact: "\<bar>x\<bar> < 2 ^ p \<Longrightarrow> to_float p x = x"
  by (simp add: to_float_def round_sig_exact nat_less_iff)

lemma float32_mono: "x \<le> y \<Longrightarrow> float32 x \<le> float32 y"
  by (simp add: float32_def to_float_mono)

text \<open>Below \<open>2^24 = 16777216\<close> nothing is rounded, and the halving does not overflow.\<close>

lemma float32_small: "\<bar>x\<bar> < 16777216 \<Longrightarrow> float32 x = x"
  unfolding float32_def by (rule to_float_exact) simp

lemma float64_small: "\<bar>x\<bar> < 16777216 \<Longrightarrow> float64 x = x"
  unfolding float64_def by (rule to_float_exact) simp

lemma halfway_threshold_small: "\<bar>m\<bar> < 16777216 \<Longrightarrow> halfway_threshold m = real_of_int m / 2"
  by (simp add: halfway_threshold_def float32_small float64_small)

lemma half_overflows_small: "\<bar>m\<bar> < 16777216 \<Longrightarrow> half_overflows m = False"
proof -
  assume a: "\<bar>m\<bar> < 16777216"
  have "(16777216::int) = 2 ^ 24" by simp
  also have "\<dots> \<le> 2 ^ 1025" by (rule power_increasing) simp_all
  finally show ?thesis using a by (simp add: half_overflows_def float64_small)
qed

lemmas float_eval = float32_def float64_def to_float_def round_sig_def round_to_even_def
  bit_length_numeral bit_length_0 Let_def

section \<open>Facts about the tensor operations and the reward loop\<close>

lemma shape_row: "shape n p t \<Longrightarrow> e < n \<Longrightarrow> length (t ! e) = p"
  by (simp add: shape_def list_all_length)

lemma shape_length: "shape n p t \<Longrightarrow> length t = n"
  by (simp add: shape_def)

lemma length_col [simp]: "length (col i t) = length t"
  by (simp add: col_def)

lemma col_nth [simp]: "e < length t \<Longrightarrow> col i t ! e = t ! e ! i"
  by (simp add: col_def)

lemma length_set_col [simp]: "length (set_col i v t) = min (length t) (length v)"
  by (simp add: set_col_def)

lemma set_col_nth [simp]:
  "e < length t \<Longrightarrow> e < length v \<Longrightarrow> set_col i v t ! e = (t ! e)[i := v ! e]"
  by (simp add: set_col_def)

lemma shape_set_col: "shape n p t \<Longrightarrow> length v = n \<Longrightarrow> shape n p (set_col i v t)"
  by (simp add: shape_def list_all_length)

lemma length_any_dim0 [simp]: "length (any_dim0 n m) = n"
  by (simp add: any_dim0_def)

lemma any_dim0_nth [simp]: "e < n \<Longrightarrow> any_dim0 n m ! e = list_ex (\<lambda>row. row ! e) m"
  by (simp add: any_dim0_def)

lemma reward_pair_shape:
  assumes "shape n p newly" "shape n p already" "num_envs s = n"
  shows "shape n p (fst (reward_pair s obs i (newly, already)))"
    and "shape n p (snd (reward_pair s obs i (newly, already)))"
proof -
  have l1: "length newly = n" "length already = n" using assms by (simp_all add: shape_def)
  show "shape n p (fst (reward_pair s obs i (newly, already)))"
    using assms l1 by (simp add: reward_pair_def Let_def shape_set_col)
  show "shape n p (snd (reward_pair s obs i (newly, already)))"
    using assms l1 by (simp add: reward_pair_def Let_def shape_set_col)
qed

lemma reward_pair_newly:
  assumes "shape n p newly" "shape n p already" "num_envs s = n" "e < n" "i < p"
  shows "fst (reward_pair s obs i (newly, already)) ! e ! j =
           (if j = i then pair_matches s obs i e \<and> \<not> already ! e ! i else newly ! e ! j)"
  using assms shape_row[OF assms(1) assms(4)]
  by (simp add: reward_pair_def Let_def shape_def pair_matches_def)

lemma reward_pair_already:
  assumes "shape n p newly" "shape n p already" "num_envs s = n" "e < n" "i < p"
  shows "snd (reward_pair s obs i (newly, already)) ! e ! j =
           (if j = i then already ! e ! i \<or> pair_matches s obs i e else already ! e ! j)"
  using assms shape_row[OF assms(1) assms(4)] shape_row[OF assms(2) assms(4)]
  by (auto simp add: reward_pair_def Let_def shape_def pair_matches_def)

lemma reward_fold:
  fixes obs :: "pair_obs list"
  assumes "shape n p already" "num_envs s = n" "k \<le> p"
  defines "r \<equiv> fold (reward_pair s obs) [0..<k] (replicate n (replicate p False), already)"
  shows "shape n p (fst r) \<and> shape n p (snd r) \<and>
         (\<forall>e<n. \<forall>j<p. fst r ! e ! j = (j < k \<and> pair_matches s obs j e \<and> \<not> already ! e ! j)) \<and>
         (\<forall>e<n. \<forall>j<p. snd r ! e ! j = (already ! e ! j \<or> (j < k \<and> pair_matches s obs j e)))"
  using assms(3) unfolding r_def
proof (induction k)
  case 0
  then show ?case using assms(1) by (simp add: shape_def list_all_length)
next
  case (Suc k)
  let ?r = "fold (reward_pair s obs) [0..<k] (replicate n (replicate p False), already)"
  have IH: "shape n p (fst ?r)" "shape n p (snd ?r)"
    "\<forall>e<n. \<forall>j<p. fst ?r ! e ! j = (j < k \<and> pair_matches s obs j e \<and> \<not> already ! e ! j)"
    "\<forall>e<n. \<forall>j<p. snd ?r ! e ! j = (already ! e ! j \<or> (j < k \<and> pair_matches s obs j e))"
    using Suc by simp_all
  have step: "fold (reward_pair s obs) [0..<Suc k] (replicate n (replicate p False), already)
      = reward_pair s obs k (fst ?r, snd ?r)" by simp
  have kp: "k < p" using Suc.prems by simp
  show ?case unfolding step
    using reward_pair_shape[OF IH(1) IH(2) assms(2)]
      reward_pair_newly[OF IH(1) IH(2) assms(2) _ kp]
      reward_pair_already[OF IH(1) IH(2) assms(2) _ kp] IH(3,4) kp
    by (auto simp: less_Suc_eq)
qed

text \<open>What the loop of the reward computes, entry by entry.\<close>

lemma reward_loop_spec:
  assumes "shape (num_envs s) (length (pairs_to_assemble s)) (already_assembled s)"
  shows "shape (num_envs s) (length (pairs_to_assemble s)) (fst (reward_loop s obs))"
    and "shape (num_envs s) (length (pairs_to_assemble s)) (snd (reward_loop s obs))"
    and "e < num_envs s \<Longrightarrow> j < length (pairs_to_assemble s) \<Longrightarrow>
         fst (reward_loop s obs) ! e ! j = (pair_matches s obs j e \<and> \<not> already_assembled s ! e ! j)"
    and "e < num_envs s \<Longrightarrow> j < length (pairs_to_assemble s) \<Longrightarrow>
         snd (reward_loop s obs) ! e ! j = (already_assembled s ! e ! j \<or> pair_matches s obs j e)"
  using reward_fold[OF assms refl order_refl, of obs]
  by (simp_all add: reward_loop_def)

lemma list_ex_nth: "list_ex P xs \<longleftrightarrow> (\<exists>j<length xs. P (xs ! j))"
  by (rule list_ex_length)

lemma any_dim1_loop:
  assumes "shape (num_envs s) (length (pairs_to_assemble s)) (already_assembled s)" "e < num_envs s"
  shows "any_dim1 (fst (reward_loop s obs)) ! e = newly_assembled s obs e"
proof -
  have len: "length (fst (reward_loop s obs)) = num_envs s"
    using reward_loop_spec(1)[OF assms(1)] by (simp add: shape_def)
  have row: "length (fst (reward_loop s obs) ! e) = length (pairs_to_assemble s)"
    using reward_loop_spec(1)[OF assms(1)] assms(2) by (rule shape_row)
  show ?thesis
    using len row assms(2) reward_loop_spec(3)[OF assms(1) assms(2), where obs = obs]
    by (auto simp add: any_dim1_def list_ex_nth newly_assembled_def)
qed

lemma wf_env_shape: "wf_env s \<Longrightarrow> shape (num_envs s) (length (pairs_to_assemble s)) (already_assembled s)"
  by (simp add: wf_env_def shape_def)

lemma rl_reward_state:
  "fst (rl_reward s obs) = s\<lparr>already_assembled := snd (reward_loop s obs)\<rparr>"
  by (simp add: rl_reward_def Let_def case_prod_beta)

lemma rl_reward_value:
  assumes sh: "shape (num_envs s) (length (pairs_to_assemble s)) (already_assembled s)"
  shows "snd (rl_reward s obs) =
           (if manual_done s \<and> (\<exists>e<num_envs s. newly_assembled s obs e) then None
            else Some (map (\<lambda>e. [if newly_assembled s obs e then 1 else 0]) [0..<num_envs s]))"
proof -
  let ?newly = "fst (reward_loop s obs)"
  have len: "length ?newly = num_envs s"
    using reward_loop_spec(1)[OF sh] by (simp add: shape_def)
  have rows: "unsqueeze_last (map (\<lambda>b. if b then 1 else 0) (any_dim1 ?newly))
      = map (\<lambda>e. [if newly_assembled s obs e then (1::real) else 0]) [0..<num_envs s]"
  proof (rule nth_equalityI)
    show "length (unsqueeze_last (map (\<lambda>b. if b then 1 else 0) (any_dim1 ?newly))) =
          length (map (\<lambda>e. [if newly_assembled s obs e then (1::real) else 0]) [0..<num_envs s])"
      by (simp add: unsqueeze_last_def any_dim1_def len)
  next
    fix i assume "i < length (unsqueeze_last (map (\<lambda>b. if b then (1::real) else 0) (any_dim1 ?newly)))"
    then have i: "i < num_envs s" by (simp add: unsqueeze_last_def any_dim1_def len)
    then have "i < length (any_dim1 ?newly)" by (simp add: any_dim1_def len)
    then show "unsqueeze_last (map (\<lambda>b. if b then 1 else 0) (any_dim1 ?newly)) ! i =
          map (\<lambda>e. [if newly_assembled s obs e then (1::real) else 0]) [0..<num_envs s] ! i"
      using i any_dim1_loop[OF sh i, where obs = obs] by (simp add: unsqueeze_last_def)
  qed
  have ex: "list_ex (list_ex (\<lambda>r. r = 1)) (map (\<lambda>e. [if newly_assembled s obs e then (1::real) else 0]) [0..<num_envs s])
      \<longleftrightarrow> (\<exists>e<num_envs s. newly_assembled s obs e)"
    by (auto simp: list_ex_iff)
  show ?thesis
    using rows ex by (simp add: rl_reward_def Let_def case_prod_beta)
qed

section \<open>Facts about one tick\<close>

lemma handle_bulb_Inr:
  assumes "handle_bulb_rest_pose s c = Inr (s', b, ks)"
  shows "\<exists>mb. s' = s\<lparr>moving_bulbs := mb\<rparr> \<and>
           (case mb of None \<Rightarrow> moving_bulbs s = None | Some m \<Rightarrow> \<exists>m0. moving_bulbs s = Some m0 \<and> length m = length m0)"
proof (cases "moving_bulbs s")
  case None
  then have "s' = s" using assms by (auto simp: handle_bulb_rest_pose_def split: if_splits)
  then have "s' = s\<lparr>moving_bulbs := None\<rparr>" using None by simp
  then show ?thesis using None by (intro exI[of _ None]) simp
next
  case (Some m0)
  show ?thesis
  proof (cases "s' = s")
    case True
    then have "s' = s\<lparr>moving_bulbs := Some m0\<rparr>" using Some by simp
    then show ?thesis using Some by (intro exI[of _ "Some m0"]) simp
  next
    case False
    then have "s' = s\<lparr>moving_bulbs := Some (index_fill (where_true (map Not
        (map2 (\<lambda>a b. a \<and> \<not> b) (map2 (\<lambda>a b. a \<and> \<not> b) (replicate (num_envs s) True) m0) c))) True m0)\<rparr>"
      using assms Some by (auto simp: handle_bulb_rest_pose_def Let_def split: if_splits)
    moreover have "length (index_fill ks v t) = length t" for ks :: "nat list" and v :: bool and t
      unfolding index_fill_def by (induction ks arbitrary: t) simp_all
    ultimately show ?thesis using Some by (intro exI[of _ "Some (index_fill _ True m0)"]) simp
  qed
qed


lemma simulate_step_Inr:
  assumes "simulate_step s a c = Inr (s1, cmds)"
  shows "\<exists>mb. s1 = s\<lparr>last_grasp := map last (clamp_action a), moving_bulbs := mb\<rparr> \<and>
           (case mb of None \<Rightarrow> moving_bulbs s = None | Some m \<Rightarrow> \<exists>m0. moving_bulbs s = Some m0 \<and> length m = length m0)"
proof -
  let ?s0 = "s\<lparr>last_grasp := map last (clamp_action a)\<rparr>"
  obtain b ks where h: "handle_bulb_rest_pose ?s0 c = Inr (s1, b, ks)"
    using assms by (auto simp: simulate_step_def Let_def split: sum.splits)
  from handle_bulb_Inr[OF h] obtain mb where
    "s1 = ?s0\<lparr>moving_bulbs := mb\<rparr>"
    "case mb of None \<Rightarrow> moving_bulbs ?s0 = None | Some m \<Rightarrow> \<exists>m0. moving_bulbs ?s0 = Some m0 \<and> length m = length m0"
    by blast
  then show ?thesis by (intro exI[of _ mb]) (auto split: option.splits)
qed

lemma simulate_step_grip:
  assumes "simulate_step s a c = Inr (s1, cmds)"
  shows "grip_sep cmds = map2 (grip_width s) (map last (clamp_action a)) (last_grasp s)"
  using assms by (auto simp: simulate_step_def Let_def split: sum.splits)

lemma reward_loop_cong:
  assumes "num_envs s1 = num_envs s" "pairs_to_assemble s1 = pairs_to_assemble s"
    "position_only s1 = position_only s" "already_assembled s1 = already_assembled s"
  shows "reward_loop s1 obs = reward_loop s obs"
proof -
  have "reward_pair s1 obs = reward_pair s obs"
    using assms by (intro ext) (simp add: reward_pair_def assembled_mask_def)
  then show ?thesis using assms by (simp add: reward_loop_def)
qed

lemma pair_matches_cong:
  assumes "num_envs s1 = num_envs s" "pairs_to_assemble s1 = pairs_to_assemble s"
    "position_only s1 = position_only s"
  shows "pair_matches s1 obs = pair_matches s obs"
  using assms by (intro ext) (simp add: pair_matches_def assembled_mask_def)

lemma newly_assembled_cong:
  assumes "num_envs s1 = num_envs s" "pairs_to_assemble s1 = pairs_to_assemble s"
    "position_only s1 = position_only s" "already_assembled s1 = already_assembled s"
  shows "newly_assembled s1 obs = newly_assembled s obs"
  using assms pair_matches_cong[OF assms(1-3)] by (intro ext) (simp add: newly_assembled_def)

text \<open>The effect of one tick on the environment and what it returns.\<close>

lemma rl_step_spec:
  assumes sh: "shape (num_envs s) (length (pairs_to_assemble s)) (already_assembled s)"
    and st: "rl_step s inp = Inr (s', out)"
  shows "\<exists>mb. s' = s\<lparr>last_grasp := map last (clamp_action (action inp)), moving_bulbs := mb,
                  already_assembled := snd (reward_loop s (pose_obs inp)),
                  env_steps := map (\<lambda>c. wrap32 (c + 1)) (env_steps s)\<rparr> \<and>
           (case mb of None \<Rightarrow> moving_bulbs s = None | Some m \<Rightarrow> \<exists>m0. moving_bulbs s = Some m0 \<and> length m = length m0)"
    and "reward out =
           (if manual_done s \<and> (\<exists>e<num_envs s. newly_assembled s (pose_obs inp) e) then None
            else Some (map (\<lambda>e. [if newly_assembled s (pose_obs inp) e then 1 else 0]) [0..<num_envs s]))"
    and "rl_done (s\<lparr>already_assembled := snd (reward_loop s (pose_obs inp))\<rparr>) =
           Inr (terminated out, truncated out)"
proof -
  obtain s1 cmds where sim: "simulate_step s (action inp) (hand_bulb_close inp) = Inr (s1, cmds)"
    using st by (auto simp: rl_step_def split: sum.splits)
  obtain mb where s1: "s1 = s\<lparr>last_grasp := map last (clamp_action (action inp)), moving_bulbs := mb\<rparr>"
    and mb: "case mb of None \<Rightarrow> moving_bulbs s = None | Some m \<Rightarrow> \<exists>m0. moving_bulbs s = Some m0 \<and> length m = length m0"
    using simulate_step_Inr[OF sim] by blast
  have wf1: "shape (num_envs s1) (length (pairs_to_assemble s1)) (already_assembled s1)"
    using sh by (simp add: s1)
  have loop: "reward_loop s1 (pose_obs inp) = reward_loop s (pose_obs inp)"
    by (rule reward_loop_cong) (simp_all add: s1)
  have newly: "newly_assembled s1 (pose_obs inp) = newly_assembled s (pose_obs inp)"
    by (rule newly_assembled_cong) (simp_all add: s1)
  let ?s2 = "fst (rl_reward s1 (pose_obs inp))"
  have s2: "?s2 = s1\<lparr>already_assembled := snd (reward_loop s (pose_obs inp))\<rparr>"
    by (simp add: rl_reward_state loop)
  have out: "s' = ?s2\<lparr>env_steps := map (\<lambda>c. wrap32 (c + 1)) (env_steps ?s2)\<rparr>"
    "reward out = snd (rl_reward s1 (pose_obs inp))"
    "rl_done ?s2 = Inr (terminated out, truncated out)"
    using st sim by (auto simp: rl_step_def Let_def case_prod_beta split: sum.splits option.splits)
  show "\<exists>mb. s' = s\<lparr>last_grasp := map last (clamp_action (action inp)), moving_bulbs := mb,
                  already_assembled := snd (reward_loop s (pose_obs inp)),
                  env_steps := map (\<lambda>c. wrap32 (c + 1)) (env_steps s)\<rparr> \<and>
           (case mb of None \<Rightarrow> moving_bulbs s = None | Some m \<Rightarrow> \<exists>m0. moving_bulbs s = Some m0 \<and> length m = length m0)"
    using mb unfolding out(1) s2 by (intro exI[of _ mb]) (simp add: s1)
  show "reward out =
           (if manual_done s \<and> (\<exists>e<num_envs s. newly_assembled s (pose_obs inp) e) then None
            else Some (map (\<lambda>e. [if newly_assembled s (pose_obs inp) e then 1 else 0]) [0..<num_envs s]))"
    using out(2) rl_reward_value[OF wf1, of "pose_obs inp"] newly by (simp add: s1)
  have "rl_done ?s2 = rl_done (s\<lparr>already_assembled := snd (reward_loop s (pose_obs inp))\<rparr>)"
    unfolding s2 by (simp add: s1 rl_done_def)
  then show "rl_done (s\<lparr>already_assembled := snd (reward_loop s (pose_obs inp))\<rparr>) =
      Inr (terminated out, truncated out)"
    using out(3) by simp
qed

lemma rl_step_bits:
  assumes wf: "wf_env s" and st: "rl_step s inp = Inr (s', out)"
    and e: "e < num_envs s" and j: "j < length (pairs_to_assemble s)"
  shows "already_assembled s' ! e ! j = (already_assembled s ! e ! j \<or> pair_matches s (pose_obs inp) j e)"
proof -
  have sh: "shape (num_envs s) (length (pairs_to_assemble s)) (already_assembled s)"
    using wf by (rule wf_env_shape)
  from rl_step_spec(1)[OF sh st] have "already_assembled s' = snd (reward_loop s (pose_obs inp))"
    by auto
  then show ?thesis using reward_loop_spec(4)[OF sh e j] by simp
qed

lemma transition_iff_newly:
  assumes wf: "wf_env s" and st: "rl_step s inp = Inr (s', out)" and e: "e < num_envs s"
  shows "(\<exists>j<length (pairs_to_assemble s). \<not> already_assembled s ! e ! j \<and> already_assembled s' ! e ! j)
         \<longleftrightarrow> newly_assembled s (pose_obs inp) e"
  using rl_step_bits[OF wf st e] by (auto simp: newly_assembled_def)

lemma sum_dim1_all:
  "length row = p \<Longrightarrow> (int (length (filter (\<lambda>b. b) row)) = int p) = (\<forall>j<p. row ! j)"
proof -
  assume l: "length row = p"
  have "(length (filter (\<lambda>b. b) row) = length row) = (\<forall>b\<in>set row. b)"
    by (metis filter_id_conv length_filter_less nat_neq_iff filter_True)
  then show ?thesis using l by (auto simp: all_set_conv_all_nth)
qed

lemma rl_step_done:
  assumes wf: "wf_env s" and st: "rl_step s inp = Inr (s', out)" and e: "e < num_envs s"
    and nm: "\<not> manual_done s"
  shows "terminated out ! e = [\<forall>j<length (pairs_to_assemble s). already_assembled s' ! e ! j]"
    and "truncated out ! e = [wrap32 (max_env_steps s - 1) \<le> env_steps s ! e]"
    and "fits_int64 (max_env_steps s - 1)"
proof -
  have sh: "shape (num_envs s) (length (pairs_to_assemble s)) (already_assembled s)"
    using wf by (rule wf_env_shape)
  have aa: "already_assembled s' = snd (reward_loop s (pose_obs inp))"
    using rl_step_spec(1)[OF sh st] by auto
  have sh': "shape (num_envs s) (length (pairs_to_assemble s)) (already_assembled s')"
    using reward_loop_spec(2)[OF sh] aa by simp
  have d: "rl_done (s\<lparr>already_assembled := already_assembled s'\<rparr>) =
      Inr (terminated out, truncated out)"
    using rl_step_spec(3)[OF sh st] aa by simp
  then show fit: "fits_int64 (max_env_steps s - 1)"
    using nm by (simp add: rl_done_def split: if_splits)
  have le: "length (already_assembled s') = num_envs s" using sh' by (simp add: shape_def)
  have row: "length (already_assembled s' ! e) = length (pairs_to_assemble s)"
    using sh' e by (rule shape_row)
  have t: "terminated out = unsqueeze_last (map (\<lambda>c. c = int (length (pairs_to_assemble s)))
                               (sum_dim1 (already_assembled s')))"
    and u: "truncated out = unsqueeze_last (map (\<lambda>c. c \<ge> wrap32 (max_env_steps s - 1)) (env_steps s))"
    using d nm fit by (simp_all add: rl_done_def)
  show "terminated out ! e = [\<forall>j<length (pairs_to_assemble s). already_assembled s' ! e ! j]"
    using e le sum_dim1_all[OF row] by (simp add: t unsqueeze_last_def sum_dim1_def)
  have "length (env_steps s) = num_envs s" using wf by (simp add: wf_env_def)
  then show "truncated out ! e = [wrap32 (max_env_steps s - 1) \<le> env_steps s ! e]"
    using e by (simp add: u unsqueeze_last_def)
qed

text \<open>A tick with \<^verbatim>\<open>manual_done\<close> set: the flags, and when a reward tensor is returned.\<close>

lemma manual_step_outputs:
  assumes "wf_env s" and "manual_done s" and "rl_step s inp = Inr (s', out)"
  shows "terminated out = replicate (num_envs s) [False]"
    and "truncated out = replicate (num_envs s) [False]"
    and "reward out = (if \<exists>e<num_envs s. newly_assembled s (pose_obs inp) e then None
                       else Some (replicate (num_envs s) [0]))"
proof -
  have sh: "shape (num_envs s) (length (pairs_to_assemble s)) (already_assembled s)"
    using assms(1) by (rule wf_env_shape)
  show "terminated out = replicate (num_envs s) [False]"
    and "truncated out = replicate (num_envs s) [False]"
    using rl_step_spec(3)[OF sh assms(3)] assms(2) by (auto simp: rl_done_def)
  have zeros: "map (\<lambda>e. [if newly_assembled s (pose_obs inp) e then 1 else (0::real)]) [0..<num_envs s]
       = replicate (num_envs s) [0]" if "\<forall>e<num_envs s. \<not> newly_assembled s (pose_obs inp) e"
    using that by (intro nth_equalityI) simp_all
  show "reward out = (if \<exists>e<num_envs s. newly_assembled s (pose_obs inp) e then None
                       else Some (replicate (num_envs s) [0]))"
    using rl_step_spec(2)[OF sh assms(3)] assms(2) zeros by auto
qed

section \<open>Facts about reset and runs\<close>

lemma clear_rows_length [simp]:
  "length (fold (\<lambda>k t. t[k := replicate (length (t ! k)) False]) ks t) = length t"
  by (induction ks arbitrary: t) simp_all

lemma clear_rows_nth:
  "e < length t \<Longrightarrow>
   fold (\<lambda>k t. t[k := replicate (length (t ! k)) False]) ks t ! e =
     (if e \<in> set ks then replicate (length (t ! e)) False else t ! e)"
proof (induction ks arbitrary: t)
  case Nil
  then show ?case by simp
next
  case (Cons k ks)
  let ?t = "t[k := replicate (length (t ! k)) False]"
  have l: "e < length ?t" using Cons.prems by simp
  have row: "length (?t ! e) = length (t ! e)" using Cons.prems by (cases "e = k") simp_all
  show ?case using Cons.IH[OF l] row Cons.prems by (cases "e = k") auto
qed

lemma index_fill_length [simp]: "length (index_fill ks v t) = length t"
  unfolding index_fill_def by (induction ks arbitrary: t) simp_all

lemma index_fill_nth:
  "e < length t \<Longrightarrow> index_fill ks v t ! e = (if e \<in> set ks then v else t ! e)"
  unfolding index_fill_def
proof (induction ks arbitrary: t)
  case Nil
  then show ?case by simp
next
  case (Cons k ks)
  have l: "e < length (t[k := v])" using Cons.prems by simp
  show ?case using Cons.IH[OF l] Cons.prems by (cases "e = k") auto
qed

lemma those_map_Some:
  "those (map f xs) = Some ys \<Longrightarrow> map Some ys = map f xs"
proof (induction xs arbitrary: ys)
  case Nil
  then show ?case by simp
next
  case (Cons x xs)
  then show ?case by (auto split: option.splits)
qed

lemma those_map_total:
  "(\<forall>x\<in>set xs. f x \<noteq> None) \<Longrightarrow> \<exists>ys. those (map f xs) = Some ys"
  by (induction xs) (auto split: option.splits)

lemma norm_index_less: "norm_index n k = Some e \<Longrightarrow> e < n"
  by (auto simp: norm_index_def split: if_splits)

lemma norm_index_nat [simp]: "k < n \<Longrightarrow> norm_index n (int k) = Some k"
  by (simp add: norm_index_def)

lemma those_all_envs: "those (map (norm_index n) (map int [0..<n])) = Some [0..<n]"
proof -
  have "those (map (norm_index n) (map int ks)) = Some ks" if "\<forall>k\<in>set ks. k < n" for ks
    using that by (induction ks) simp_all
  then show ?thesis by simp
qed

text \<open>What a successful reset does to the environment.\<close>

lemma rl_reset_spec:
  assumes "rl_reset s arg rin = Inr s'"
  shows "\<exists>ks. set ks = named_envs (num_envs s) arg \<and> (\<forall>k\<in>set ks. k < num_envs s) \<and>
           s' = s\<lparr>already_assembled :=
                     fold (\<lambda>k t. t[k := replicate (length (t ! k)) False]) ks (already_assembled s),
                   env_steps := index_fill ks 0 (env_steps s),
                   moving_bulbs := (if furniture_name s = ''lamp''
                                    then Some (replicate (num_envs s) False) else moving_bulbs s)\<rparr>"
proof -
  let ?idxs = "case arg of None \<Rightarrow> map int [0..<num_envs s] | Some ks \<Rightarrow> ks"
  from assms obtain ks where ks: "those (map (norm_index (num_envs s)) ?idxs) = Some ks"
    by (auto simp: rl_reset_def Let_def split: if_splits option.splits)
  have m: "map Some ks = map (norm_index (num_envs s)) ?idxs" using ks by (rule those_map_Some)
  have "set (map Some ks) = set (map (norm_index (num_envs s)) ?idxs)" using m by simp
  then have mem: "e \<in> set ks \<longleftrightarrow> Some e \<in> set (map (norm_index (num_envs s)) ?idxs)" for e
    by (metis (no_types, lifting) image_iff option.inject set_map)
  have named: "set ks = named_envs (num_envs s) arg"
  proof (cases arg)
    case None
    then have "ks = [0..<num_envs s]" using ks those_all_envs[of "num_envs s"] by simp
    then show ?thesis using None by (auto simp: named_envs_def)
  next
    case (Some a)
    then show ?thesis using mem by (auto simp: named_envs_def)
  qed
  have lt: "\<forall>k\<in>set ks. k < num_envs s"
    using mem norm_index_less by (metis (no_types, lifting) image_iff set_map)
  have "s' = s\<lparr>already_assembled :=
                     fold (\<lambda>k t. t[k := replicate (length (t ! k)) False]) ks (already_assembled s),
                   env_steps := index_fill ks 0 (env_steps s),
                   moving_bulbs := (if furniture_name s = ''lamp''
                                    then Some (replicate (num_envs s) False) else moving_bulbs s)\<rparr>"
    using assms ks by (auto simp: rl_reset_def Let_def split: if_splits option.splits)
  then show ?thesis using named lt by blast
qed

lemma rl_reset_total:
  assumes "dof_state_ok rin" "dof_target_ok rin"
    and "case arg of None \<Rightarrow> 0 < num_envs s
         | Some ks \<Rightarrow> ks \<noteq> [] \<and> (\<forall>k\<in>set ks. norm_index (num_envs s) k \<noteq> None)"
  shows "\<exists>s'. rl_reset s arg rin = Inr s'"
proof (cases arg)
  case None
  then show ?thesis using assms those_all_envs[of "num_envs s"]
    by (simp add: rl_reset_def Let_def)
next
  case (Some ks)
  then obtain ns where "those (map (norm_index (num_envs s)) ks) = Some ns"
    using assms(3) those_map_total[of ks "norm_index (num_envs s)"] by auto
  then show ?thesis using Some assms by (simp add: rl_reset_def Let_def)
qed

lemma rl_reset_rows:
  assumes "rl_reset s arg rin = Inr s'" and sh: "shape (num_envs s) p (already_assembled s)"
    and es: "length (env_steps s) = num_envs s" and e: "e < num_envs s"
  shows "already_assembled s' ! e =
           (if e \<in> named_envs (num_envs s) arg then replicate p False else already_assembled s ! e)"
    and "env_steps s' ! e = (if e \<in> named_envs (num_envs s) arg then 0 else env_steps s ! e)"
    and "shape (num_envs s) p (already_assembled s')"
    and "num_envs s' = num_envs s" and "pairs_to_assemble s' = pairs_to_assemble s"
    and "length (env_steps s') = num_envs s"
proof -
  from rl_reset_spec[OF assms(1)] obtain ks where
    ks: "set ks = named_envs (num_envs s) arg"
    and s': "s' = s\<lparr>already_assembled :=
                     fold (\<lambda>k t. t[k := replicate (length (t ! k)) False]) ks (already_assembled s),
                   env_steps := index_fill ks 0 (env_steps s),
                   moving_bulbs := (if furniture_name s = ''lamp''
                                    then Some (replicate (num_envs s) False) else moving_bulbs s)\<rparr>"
    by blast
  have len: "length (already_assembled s) = num_envs s" using sh by (simp add: shape_def)
  have rows: "\<And>k. k < num_envs s \<Longrightarrow> length (already_assembled s ! k) = p"
    using sh by (simp add: shape_row)
  show "already_assembled s' ! e =
           (if e \<in> named_envs (num_envs s) arg then replicate p False else already_assembled s ! e)"
    using clear_rows_nth[of e "already_assembled s" ks] e len rows ks by (simp add: s')
  show "env_steps s' ! e = (if e \<in> named_envs (num_envs s) arg then 0 else env_steps s ! e)"
    using index_fill_nth[of e "env_steps s" ks 0] e es ks by (simp add: s')
  show "shape (num_envs s) p (already_assembled s')"
    using clear_rows_nth[of _ "already_assembled s" ks] len rows
    by (simp add: s' shape_def list_all_length)
  show "num_envs s' = num_envs s" "pairs_to_assemble s' = pairs_to_assemble s"
    "length (env_steps s') = num_envs s"
    using es by (simp_all add: s')
qed

lemma rl_step_shape:
  assumes sh: "shape (num_envs s) (length (pairs_to_assemble s)) (already_assembled s)"
    and st: "rl_step s inp = Inr (s', out)"
  shows "num_envs s' = num_envs s" and "pairs_to_assemble s' = pairs_to_assemble s"
    and "shape (num_envs s) (length (pairs_to_assemble s)) (already_assembled s')"
    and "e < num_envs s \<Longrightarrow> j < length (pairs_to_assemble s) \<Longrightarrow>
         already_assembled s ! e ! j \<Longrightarrow> already_assembled s' ! e ! j"
proof -
  from rl_step_spec(1)[OF sh st] obtain mb where
    s': "s' = s\<lparr>last_grasp := map last (clamp_action (action inp)), moving_bulbs := mb,
                  already_assembled := snd (reward_loop s (pose_obs inp)),
                  env_steps := map (\<lambda>c. wrap32 (c + 1)) (env_steps s)\<rparr>" by blast
  show "num_envs s' = num_envs s" "pairs_to_assemble s' = pairs_to_assemble s"
    by (simp_all add: s')
  show "shape (num_envs s) (length (pairs_to_assemble s)) (already_assembled s')"
    using reward_loop_spec(2)[OF sh] by (simp add: s')
  show "e < num_envs s \<Longrightarrow> j < length (pairs_to_assemble s) \<Longrightarrow>
         already_assembled s ! e ! j \<Longrightarrow> already_assembled s' ! e ! j"
    using reward_loop_spec(4)[OF sh] by (simp add: s')
qed

lemma exec_latched:
  assumes "exec s evs = Inr s'"
    and "shape (num_envs s) (length (pairs_to_assemble s)) (already_assembled s)"
    and "e < num_envs s" and "j < length (pairs_to_assemble s)"
    and "already_assembled s ! e ! j"
    and "list_all (\<lambda>ev. \<not> resets (num_envs s) ev e) evs"
  shows "already_assembled s' ! e ! j"
  using assms
proof (induction evs arbitrary: s)
  case Nil
  then show ?case by simp
next
  case (Cons ev evs)
  show ?case
  proof (cases ev)
    case (Step inp)
    from Cons.prems(1) Step obtain s1 out where st: "rl_step s inp = Inr (s1, out)"
      and ex: "exec s1 evs = Inr s'" by (auto split: sum.splits)
    note f = rl_step_shape[OF Cons.prems(2) st]
    show ?thesis
      using Cons.IH[OF ex] f(1,2,3) f(4)[OF Cons.prems(3,4,5)] Cons.prems(3,4,6) by simp
  next
    case (Reset arg rin)
    from Cons.prems(1) Reset obtain s1 where rs: "rl_reset s arg rin = Inr s1"
      and ex: "exec s1 evs = Inr s'" by (auto split: sum.splits)
    have notnamed: "e \<notin> named_envs (num_envs s) arg" using Cons.prems(6) Reset by simp
    from rl_reset_spec[OF rs] obtain ks where
      ks: "set ks = named_envs (num_envs s) arg"
      and s1: "s1 = s\<lparr>already_assembled :=
                     fold (\<lambda>k t. t[k := replicate (length (t ! k)) False]) ks (already_assembled s),
                   env_steps := index_fill ks 0 (env_steps s),
                   moving_bulbs := (if furniture_name s = ''lamp''
                                    then Some (replicate (num_envs s) False) else moving_bulbs s)\<rparr>"
      by blast
    have len: "length (already_assembled s) = num_envs s"
      using Cons.prems(2) by (simp add: shape_def)
    have rows: "\<And>k. k < num_envs s \<Longrightarrow> length (already_assembled s ! k) = length (pairs_to_assemble s)"
      using Cons.prems(2) by (simp add: shape_row)
    have sh1: "shape (num_envs s1) (length (pairs_to_assemble s1)) (already_assembled s1)"
      using clear_rows_nth[of _ "already_assembled s" ks] len rows
      by (simp add: s1 shape_def list_all_length)
    have row: "already_assembled s1 ! e = already_assembled s ! e"
      using clear_rows_nth[of e "already_assembled s" ks] Cons.prems(3) len ks notnamed
      by (simp add: s1)
    have cfg: "num_envs s1 = num_envs s" "pairs_to_assemble s1 = pairs_to_assemble s"
      by (simp_all add: s1)
    show ?thesis
      using Cons.IH[OF ex sh1] cfg row Cons.prems(3,4,5,6) by simp
  qed
qed

section \<open>Facts about the lamp bulb\<close>

lemma where_true_set: "set (where_true m) = {k. k < length m \<and> m ! k}"
  by (auto simp: where_true_def)

lemma to_rest_of_nth:
  "k < length (to_rest_of s mb c) \<Longrightarrow> to_rest_of s mb c ! k = (\<not> mb ! k \<and> \<not> c ! k)"
  by (simp add: to_rest_of_def)

lemma to_rest_of_length:
  "length mb = num_envs s \<Longrightarrow> length c = num_envs s \<Longrightarrow> length (to_rest_of s mb c) = num_envs s"
  by (simp add: to_rest_of_def)

lemma handle_bulb_lamp:
  assumes "furniture_name s = ''lamp''" and "moving_bulbs s = Some mb"
  shows "handle_bulb_rest_pose s c =
     (if half_overflows (max_env_steps s) then Inl OverflowError
      else if past_halfway s then Inr (s, False, None)
      else Inr (s\<lparr>moving_bulbs := Some (index_fill (where_true (map Not (to_rest_of s mb c))) True mb)\<rparr>,
                where_true (to_rest_of s mb c) \<noteq> [],
                if where_true (to_rest_of s mb c) \<noteq> [] then Some (where_true (to_rest_of s mb c)) else None))"
  using assms by (simp add: handle_bulb_rest_pose_def past_halfway_def to_rest_of_def Let_def)

text \<open>The bulb calls of a tick of a lamp environment whose \<^verbatim>\<open>_moving_bulbs\<close> exists.\<close>

lemma simulate_step_lamp:
  assumes "furniture_name s = ''lamp''" and "moving_bulbs s = Some mb"
    and "simulate_step s a c = Inr (s1, cmds)"
  shows "bulb_calls cmds =
           replicate (sim_steps s)
             (if \<not> past_halfway s \<and> where_true (to_rest_of s mb c) \<noteq> []
              then Some (where_true (to_rest_of s mb c)) else None)"
    and "moving_bulbs s1 =
           (if past_halfway s then Some mb
            else Some (index_fill (where_true (map Not (to_rest_of s mb c))) True mb))"
proof -
  let ?s0 = "s\<lparr>last_grasp := map last (clamp_action a)\<rparr>"
  have l: "furniture_name ?s0 = ''lamp''" "moving_bulbs ?s0 = Some mb" using assms by simp_all
  have ph: "past_halfway ?s0 = past_halfway s" by (simp add: past_halfway_def)
  have tr: "to_rest_of ?s0 mb c = to_rest_of s mb c" by (simp add: to_rest_of_def)
  have mx: "max_env_steps ?s0 = max_env_steps s" by simp
  note h = handle_bulb_lamp[OF l, of c, unfolded ph tr mx]
  show "bulb_calls cmds =
           replicate (sim_steps s)
             (if \<not> past_halfway s \<and> where_true (to_rest_of s mb c) \<noteq> []
              then Some (where_true (to_rest_of s mb c)) else None)"
    using assms(3) h by (auto simp: simulate_step_def Let_def split: if_splits)
  show "moving_bulbs s1 =
           (if past_halfway s then Some mb
            else Some (index_fill (where_true (map Not (to_rest_of s mb c))) True mb))"
    using assms(3) h assms(2) by (auto simp: simulate_step_def Let_def split: if_splits)
qed

lemma reasserted_some_replicate:
  "bulb_calls cmds = replicate n x \<Longrightarrow>
   reasserted_some_substep cmds e = (0 < n \<and> (case x of None \<Rightarrow> False | Some ks \<Rightarrow> e \<in> set ks))"
  by (auto simp: reasserted_some_substep_def list_ex_iff)

lemma reasserted_each_replicate:
  "bulb_calls cmds = replicate n x \<Longrightarrow>
   reasserted_each_substep cmds e = (n = 0 \<or> (case x of None \<Rightarrow> False | Some ks \<Rightarrow> e \<in> set ks))"
  by (auto simp: reasserted_each_substep_def list_all_iff)

lemma marked_stays:
  assumes "e < length mb" "mb ! e"
  shows "index_fill ks True mb ! e"
  using assms by (simp add: index_fill_nth)

lemma touched_marked:
  assumes "e < length mb" "length mb = num_envs s" "length c = num_envs s" "c ! e"
  shows "index_fill (where_true (map Not (to_rest_of s mb c))) True mb ! e"
proof -
  have l: "length (to_rest_of s mb c) = num_envs s" using assms by (simp add: to_rest_of_length)
  have "e \<in> set (where_true (map Not (to_rest_of s mb c)))"
    using assms l by (simp add: where_true_set to_rest_of_nth)
  then show ?thesis using assms(1) by (simp add: index_fill_nth)
qed

lemma rl_step_sim:
  assumes "rl_step s inp = Inr (s', out)"
  shows "\<exists>s1. simulate_step s (action inp) (hand_bulb_close inp) = Inr (s1, commands out) \<and>
           moving_bulbs s' = moving_bulbs s1 \<and>
           env_steps s' = map (\<lambda>c. wrap32 (c + 1)) (env_steps s) \<and>
           furniture_name s' = furniture_name s \<and> max_env_steps s' = max_env_steps s \<and>
           sim_steps s' = sim_steps s \<and> num_envs s' = num_envs s"
proof -
  obtain s1 cmds where sim: "simulate_step s (action inp) (hand_bulb_close inp) = Inr (s1, cmds)"
    using assms by (auto simp: rl_step_def split: sum.splits)
  obtain mb where s1: "s1 = s\<lparr>last_grasp := map last (clamp_action (action inp)), moving_bulbs := mb\<rparr>"
    using simulate_step_Inr[OF sim] by blast
  let ?s2 = "fst (rl_reward s1 (pose_obs inp))"
  have s2: "?s2 = s1\<lparr>already_assembled := snd (reward_loop s1 (pose_obs inp))\<rparr>"
    by (simp add: rl_reward_state)
  have out: "s' = ?s2\<lparr>env_steps := map (\<lambda>c. wrap32 (c + 1)) (env_steps ?s2)\<rparr>" "commands out = cmds"
    using assms sim by (auto simp: rl_step_def Let_def case_prod_beta split: sum.splits option.splits)
  have "moving_bulbs s' = moving_bulbs s1 \<and>
           env_steps s' = map (\<lambda>c. wrap32 (c + 1)) (env_steps s) \<and>
           furniture_name s' = furniture_name s \<and> max_env_steps s' = max_env_steps s \<and>
           sim_steps s' = sim_steps s \<and> num_envs s' = num_envs s"
    unfolding out(1) s2 by (simp add: s1)
  then show ?thesis using sim out(2) by blast
qed

lemma no_overflow_step:
  assumes "no_overflow s (Suc k)" "env_steps s' = map (\<lambda>c. wrap32 (c + 1)) (env_steps s)"
  shows "no_overflow s' k"
proof -
  have "- (2 ^ 31) \<le> wrap32 (c + 1) \<and> wrap32 (c + 1) + int k < 2 ^ 31"
    if "c \<in> set (env_steps s)" for c
  proof -
    have b: "- (2 ^ 31) \<le> c" "c + int (Suc k) < 2 ^ 31"
      using assms(1) that by (auto simp: no_overflow_def list_all_iff)
    then have "wrap32 (c + 1) = c + 1" by (intro wrap32_id) simp_all
    then show ?thesis using b by simp
  qed
  then show ?thesis using assms(2) by (simp add: no_overflow_def list_all_iff)
qed

lemma no_overflow_mono: "no_overflow s k \<Longrightarrow> j \<le> k \<Longrightarrow> no_overflow s j"
  by (auto simp: no_overflow_def list_all_iff)

lemma past_halfway_step:
  assumes "past_halfway s" "env_steps s' = map (\<lambda>c. wrap32 (c + 1)) (env_steps s)"
    "max_env_steps s' = max_env_steps s" "no_overflow s 1"
  shows "past_halfway s'"
proof -
  from assms(1) obtain c where c: "c \<in> set (env_steps s)"
    "real_of_int (float32 c) > halfway_threshold (max_env_steps s)"
    by (auto simp: past_halfway_def list_ex_iff)
  have "- (2 ^ 31) \<le> c" "c + 1 < 2 ^ 31"
    using assms(4) c(1) by (auto simp: no_overflow_def list_all_iff)
  then have w: "wrap32 (c + 1) = c + 1" by (intro wrap32_id) simp_all
  have "wrap32 (c + 1) \<in> set (env_steps s')" using c(1) assms(2) by simp
  then have m: "c + 1 \<in> set (env_steps s')" using w by simp
  have "float32 c \<le> float32 (c + 1)" by (rule float32_mono) simp
  then have "real_of_int (float32 (c + 1)) > halfway_threshold (max_env_steps s')"
    using c(2) assms(3) by simp
  then show ?thesis using m unfolding past_halfway_def list_ex_iff by blast
qed

text \<open>A tick of a lamp environment: who is reasserted, and who is released afterwards.\<close>

lemma lamp_tick:
  assumes lamp: "furniture_name s = ''lamp''" and mb: "moving_bulbs s = Some mb"
    and st: "rl_step s inp = Inr (s', out)"
  shows "length (bulb_calls (commands out)) = sim_steps s"
    and "length mb = num_envs s \<Longrightarrow> length (hand_bulb_close inp) = num_envs s \<Longrightarrow> e < num_envs s \<Longrightarrow>
         \<not> past_halfway s \<Longrightarrow> \<not> mb ! e \<Longrightarrow> \<not> hand_bulb_close inp ! e \<Longrightarrow>
         reasserted_each_substep (commands out) e"
    and "past_halfway s \<or> mb ! e \<Longrightarrow> \<not> reasserted_some_substep (commands out) e"
    and "length mb = num_envs s \<Longrightarrow> length (hand_bulb_close inp) = num_envs s \<Longrightarrow> e < num_envs s \<Longrightarrow>
         hand_bulb_close inp ! e \<Longrightarrow> \<not> reasserted_some_substep (commands out) e"
    and "\<exists>mb'. moving_bulbs s' = Some mb' \<and> length mb' = length mb"
    and "no_overflow s 1 \<Longrightarrow> bulb_released s e \<Longrightarrow> bulb_released s' e"
    and "no_overflow s 1 \<Longrightarrow> length mb = num_envs s \<Longrightarrow> length (hand_bulb_close inp) = num_envs s \<Longrightarrow>
         e < num_envs s \<Longrightarrow> hand_bulb_close inp ! e \<Longrightarrow> bulb_released s' e"
    and "no_overflow s (Suc k) \<Longrightarrow> no_overflow s' k"
proof -
  let ?c = "hand_bulb_close inp"
  let ?tr = "to_rest_of s mb ?c"
  from rl_step_sim[OF st] obtain s1 where
    sim: "simulate_step s (action inp) ?c = Inr (s1, commands out)"
    and m': "moving_bulbs s' = moving_bulbs s1"
    and es: "env_steps s' = map (\<lambda>c. wrap32 (c + 1)) (env_steps s)"
    and cfg: "max_env_steps s' = max_env_steps s" by blast
  note calls = simulate_step_lamp(1)[OF lamp mb sim]
  note mov = simulate_step_lamp(2)[OF lamp mb sim]
  show "length (bulb_calls (commands out)) = sim_steps s" using calls by simp
  have in_rest: "k \<in> set (where_true ?tr) \<longleftrightarrow> k < length ?tr \<and> \<not> mb ! k \<and> \<not> ?c ! k" for k
    using to_rest_of_nth[of k s mb ?c] by (auto simp: where_true_set)
  show "reasserted_each_substep (commands out) e"
    if "length mb = num_envs s" "length ?c = num_envs s" "e < num_envs s"
      "\<not> past_halfway s" "\<not> mb ! e" "\<not> ?c ! e"
  proof -
    have "e \<in> set (where_true ?tr)" using that in_rest to_rest_of_length[of mb s ?c] by simp
    then show ?thesis using that(4) by (auto simp: reasserted_each_replicate[OF calls])
  qed
  show "\<not> reasserted_some_substep (commands out) e" if "past_halfway s \<or> mb ! e"
    using that in_rest by (auto simp: reasserted_some_replicate[OF calls])
  show "\<not> reasserted_some_substep (commands out) e"
    if "length mb = num_envs s" "length ?c = num_envs s" "e < num_envs s" "?c ! e"
    using that in_rest by (auto simp: reasserted_some_replicate[OF calls])
  show "\<exists>mb'. moving_bulbs s' = Some mb' \<and> length mb' = length mb"
    using m' mov by (simp add: index_fill_length)
  show "bulb_released s' e" if "no_overflow s 1" "bulb_released s e"
  proof (cases "past_halfway s")
    case True
    then show ?thesis
      using past_halfway_step[OF True es cfg that(1)] by (simp add: bulb_released_def)
  next
    case False
    then have "e < length mb \<and> mb ! e" using that(2) mb by (simp add: bulb_released_def)
    then show ?thesis using False m' mov by (simp add: bulb_released_def index_fill_nth)
  qed
  show "bulb_released s' e"
    if "no_overflow s 1" "length mb = num_envs s" "length ?c = num_envs s" "e < num_envs s" "?c ! e"
  proof (cases "past_halfway s")
    case True
    then show ?thesis
      using past_halfway_step[OF True es cfg that(1)] by (simp add: bulb_released_def)
  next
    case False
    have "e < length mb" using that by simp
    then show ?thesis
      using False m' mov touched_marked[OF _ that(2,3,5)] by (simp add: bulb_released_def)
  qed
  show "no_overflow s' k" if "no_overflow s (Suc k)"
    using that es by (rule no_overflow_step)
qed

lemma released_never_reheld:
  assumes "run_steps s inps = Inr (s', outs)" and "furniture_name s = ''lamp''"
    and "moving_bulbs s = Some mb" and "bulb_released s e"
    and "no_overflow s (length inps)"
  shows "list_all (\<lambda>r. \<not> reasserted_some_substep (commands r) e) outs"
  using assms
proof (induction inps arbitrary: s mb outs)
  case Nil
  then show ?case by simp
next
  case (Cons inp inps)
  from Cons.prems(1) obtain s1 out outs1 where st: "rl_step s inp = Inr (s1, out)"
    and run: "run_steps s1 inps = Inr (s', outs1)" and outs: "outs = out # outs1"
    by (auto split: sum.splits)
  note t = lamp_tick[OF Cons.prems(2,3) st]
  have rel: "past_halfway s \<or> mb ! e" using Cons.prems(3,4) by (auto simp: bulb_released_def)
  from t(5) obtain mb1 where mb1: "moving_bulbs s1 = Some mb1" by blast
  have lamp1: "furniture_name s1 = ''lamp''" using rl_step_sim[OF st] Cons.prems(2) by auto
  have o1: "no_overflow s 1" using Cons.prems(5) by (rule no_overflow_mono) simp
  have o': "no_overflow s1 (length inps)" using Cons.prems(5) by (intro t(8)) simp
  show ?case
    using Cons.IH[OF run lamp1 mb1 t(6)[OF o1 Cons.prems(4)] o'] t(3)[OF rel] outs by simp
qed

section \<open>Facts about the perturbation\<close>

lemma mask_select_subset: "set (mask_select msk t) \<subseteq> set t"
  by (auto simp: mask_select_def dest: set_zip_leftD)

lemma list_all_map2:
  assumes "list_all P xs" and "\<And>x y. P x \<Longrightarrow> Q (f x y)"
  shows "list_all Q (map2 f xs ys)"
  using assms by (auto simp: list_all_iff dest: set_zip_leftD)

lemma put_length [simp]: "length (fold (\<lambda>kv u. u[fst kv := snd kv]) kvs t) = length t"
  by (induction kvs arbitrary: t) simp_all

lemma put_outside:
  "b \<notin> set idxs \<Longrightarrow> fold (\<lambda>kv u. u[fst kv := snd kv]) (zip idxs vals) t ! b = t ! b"
proof (induction idxs arbitrary: vals t)
  case Nil
  then show ?case by simp
next
  case (Cons k ks)
  then show ?case by (cases vals) simp_all
qed

lemma put_same:
  "list_all (\<lambda>v. v = z) vals \<Longrightarrow>
   fold (\<lambda>kv u. u[fst kv := snd kv]) (zip idxs vals) (replicate n z) = replicate n z"
proof (induction idxs arbitrary: vals)
  case Nil
  then show ?case by simp
next
  case (Cons k ks)
  show ?case
  proof (cases vals)
    case Nil
    then show ?thesis by simp
  next
    case (Cons v vs)
    have "(replicate n z)[k := z] = replicate n z"
      by (cases "k < n") (simp_all add: list_update_same_conv list_update_beyond)
    then show ?thesis using Cons Cons.IH[of vs] Cons.prems by simp
  qed
qed

lemma index_put_Inr:
  "list_all (\<lambda>k. k < length t) idxs \<Longrightarrow>
   index_put idxs vals t = Inr (fold (\<lambda>kv u. u[fst kv := snd kv]) (zip idxs vals) t)"
  by (simp add: index_put_def)

lemma perturbation_unfold:
  "random_perturbation_of_parts s mf mt d =
     (let msk = map (\<lambda>u. u < 0.01) (u_select d);
          sel = mask_select msk (concat (rigid_body_index_by_env s))
      in case index_put sel (mask_select msk (gen_forces s mf d)) (replicate (rigid_body_count s) [0, 0, 0]) of
           Inl e \<Rightarrow> Inl e
         | Inr frc \<Rightarrow>
             (case index_put sel (mask_select msk (gen_torques s mt d)) (replicate (rigid_body_count s) [0, 0, 0]) of
                Inl e \<Rightarrow> Inl e
              | Inr trq \<Rightarrow> Inr (frc, trq)))"
  unfolding random_perturbation_of_parts_def gen_forces_def gen_torques_def Let_def ..

lemma gen_forces_zero: "list_all (\<lambda>v. v = [0, 0, 0]) (gen_forces s 0 d)"
  by (auto simp: gen_forces_def list_all_iff dest!: set_zip_leftD)

lemma gen_torques_zero: "list_all (\<lambda>v. v = [0, 0, 0]) (gen_torques s 0 d)"
  by (auto simp: gen_torques_def list_all_iff dest!: set_zip_leftD)

lemma wf_perturb_sel:
  assumes "wf_perturb s d"
  shows "list_all (\<lambda>k. k < rigid_body_count s)
           (mask_select msk (concat (rigid_body_index_by_env s)))"
proof -
  have "\<forall>k\<in>set (concat (rigid_body_index_by_env s)). k < rigid_body_count s"
    using assms by (auto simp: wf_perturb_def list_all_iff)
  then show ?thesis using mask_select_subset[of msk "concat (rigid_body_index_by_env s)"]
    by (auto simp: list_all_iff)
qed

section \<open>Facts about part poses\<close>

lemma length_concat_uniform:
  "(\<forall>x\<in>set xs. length x = m) \<Longrightarrow> length (concat xs) = length xs * m"
  by (induction xs) simp_all

lemma gather_poses_wf:
  assumes "wf_poses s num_parts"
  shows "\<exists>pp. gather_poses (rb_states s) (furniture_rb_indices s) = Inr pp \<and>
           length pp = num_envs s \<and> (\<forall>row\<in>set pp. length (concat row) = num_parts * 7)"
proof -
  let ?pp = "map (map (\<lambda>k. take 7 (rb_states s ! k))) (furniture_rb_indices s)"
  have g: "gather_poses (rb_states s) (furniture_rb_indices s) = Inr ?pp"
    using assms by (simp add: gather_poses_def wf_poses_def)
  have len: "length ?pp = num_envs s" using assms by (simp add: wf_poses_def shape_def)
  have rows: "length (concat row) = num_parts * 7" if "row \<in> set ?pp" for row
  proof -
    from that obtain idx where idx: "idx \<in> set (furniture_rb_indices s)"
      and row: "row = map (\<lambda>k. take 7 (rb_states s ! k)) idx" by auto
    have li: "length idx = num_parts" using assms idx by (simp add: wf_poses_def shape_def list_all_iff)
    have "\<forall>k\<in>set idx. k < length (rb_states s)"
      using assms idx by (simp add: wf_poses_def list_all_iff)
    then have "\<forall>k\<in>set idx. length (rb_states s ! k) = 13"
      using assms by (simp add: wf_poses_def list_all_length)
    then have "\<forall>x\<in>set row. length x = 7" unfolding row by auto
    then show ?thesis using length_concat_uniform[of row 7] li row by simp
  qed
  show ?thesis using g len rows by blast
qed

lemma reshape_rows_uniform:
  assumes "0 < n" and "length t = n" and "\<forall>row\<in>set t. length (concat row) = m"
  shows "\<exists>r. reshape_rows n t = Inr r \<and> shape n m r"
proof -
  let ?flat = "concat (map concat t)"
  have lf: "length ?flat = n * m"
    using length_concat_uniform[of "map concat t" m] assms(2,3) by simp
  then have dv: "length ?flat div n = m" and md: "length ?flat mod n = 0"
    using assms(1) by simp_all
  let ?r = "map (\<lambda>r. take m (drop (r * m) ?flat)) [0..<n]"
  have res: "reshape_rows n t = Inr ?r"
    using assms(1) dv md by (simp add: reshape_rows_def Let_def)
  have "length (take m (drop (r * m) ?flat)) = m" if "r < n" for r
  proof -
    have "(r + 1) * m \<le> n * m" using that by (intro mult_le_mono1) simp
    then have "m \<le> n * m - r * m" by (simp add: algebra_simps)
    then show ?thesis using lf by simp
  qed
  then have "shape n m ?r" by (simp add: shape_def list_all_iff)
  then show ?thesis using res by blast
qed

lemma get_parts_poses_sim:
  assumes "wf_poses s num_parts"
  shows "\<exists>t. get_parts_poses to_robot to_april s True robot_coord = Inr t \<and>
           shape (num_envs s) (num_parts * 7) t"
proof -
  from gather_poses_wf[OF assms] obtain pp where
    g: "gather_poses (rb_states s) (furniture_rb_indices s) = Inr pp"
    and l: "length pp = num_envs s" and r: "\<forall>row\<in>set pp. length (concat row) = num_parts * 7"
    by blast
  have n: "0 < num_envs s" using assms by (simp add: wf_poses_def)
  from reshape_rows_uniform[OF n l r] show ?thesis
    using g by (simp add: get_parts_poses_def)
qed

lemma unpack_pair_Inr: "unpack_pair t = Inr ab \<Longrightarrow> length t = 2"
  by (auto simp: unpack_pair_def split: list.splits)

section \<open>Facts about 4 x 4 matrices\<close>

lemma list4: "length r = 4 \<Longrightarrow> \<exists>a b c d. r = [a, b, c, d]"
  by (auto simp: eval_nat_numeral length_Suc_conv)

lemma is_mat4_expl:
  assumes "is_mat4 m"
  obtains a00 a01 a02 a03 a10 a11 a12 a13 a20 a21 a22 a23 a30 a31 a32 a33 where
    "m = [[a00, a01, a02, a03], [a10, a11, a12, a13], [a20, a21, a22, a23], [a30, a31, a32, a33]]"
proof -
  from assms have l: "length m = 4" and r: "\<forall>row\<in>set m. length row = 4"
    by (simp_all add: is_mat4_def list_all_iff)
  from list4[OF l] obtain r0 r1 r2 r3 where m: "m = [r0, r1, r2, r3]" by blast
  from r m have "length r0 = 4" "length r1 = 4" "length r2 = 4" "length r3 = 4" by simp_all
  then show ?thesis using list4 m that by metis
qed

lemma upt4: "[0..<4] = [0, 1, 2, 3]"
  by (simp add: upt_conv_Cons)

lemma upt3: "[0..<3] = [0, 1, 2]"
  by (simp add: upt_conv_Cons)

lemma del4:
  "del 0 [a, b, c, d] = [b, c, d]" "del (Suc 0) [a, b, c, d] = [a, c, d]"
  "del 2 [a, b, c, d] = [a, b, d]" "del 3 [a, b, c, d] = [a, b, c]"
  "del (Suc (Suc 0)) [a, b, c, d] = [a, b, d]" "del (Suc (Suc (Suc 0))) [a, b, c, d] = [a, b, c]"
  by (simp_all add: del_def eval_nat_numeral)

lemma det3_expl:
  "det [[a, b, c], [d, e, f], [g, h, i]] =
     a * (e * i - f * h) - b * (d * i - f * g) + c * (d * h - e * g)"
  by (simp add: del_def upt_conv_Cons eval_nat_numeral algebra_simps)

lemma det4_expl:
  "det [[a00, a01, a02, a03], [a10, a11, a12, a13], [a20, a21, a22, a23], [a30, a31, a32, a33]] =
     a00 * det [[a11, a12, a13], [a21, a22, a23], [a31, a32, a33]]
   - a01 * det [[a10, a12, a13], [a20, a22, a23], [a30, a32, a33]]
   + a02 * det [[a10, a11, a13], [a20, a21, a23], [a30, a31, a33]]
   - a03 * det [[a10, a11, a12], [a20, a21, a22], [a30, a31, a32]]"
  by (subst det.simps) (simp add: upt_conv_Cons del4 del: det.simps)

lemma cofactor4:
  fixes a00 a01 a02 a03 a10 a11 a12 a13 a20 a21 a22 a23 a30 a31 a32 a33 :: real
  defines "m \<equiv> [[a00, a01, a02, a03], [a10, a11, a12, a13], [a20, a21, a22, a23], [a30, a31, a32, a33]]"
  shows "map (\<lambda>i. map (\<lambda>j. cofactor m j i) [0..<4]) [0..<4] =
    [[  det [[a11, a12, a13], [a21, a22, a23], [a31, a32, a33]],
      - det [[a01, a02, a03], [a21, a22, a23], [a31, a32, a33]],
        det [[a01, a02, a03], [a11, a12, a13], [a31, a32, a33]],
      - det [[a01, a02, a03], [a11, a12, a13], [a21, a22, a23]]],
     [- det [[a10, a12, a13], [a20, a22, a23], [a30, a32, a33]],
        det [[a00, a02, a03], [a20, a22, a23], [a30, a32, a33]],
      - det [[a00, a02, a03], [a10, a12, a13], [a30, a32, a33]],
        det [[a00, a02, a03], [a10, a12, a13], [a20, a22, a23]]],
     [  det [[a10, a11, a13], [a20, a21, a23], [a30, a31, a33]],
      - det [[a00, a01, a03], [a20, a21, a23], [a30, a31, a33]],
        det [[a00, a01, a03], [a10, a11, a13], [a30, a31, a33]],
      - det [[a00, a01, a03], [a10, a11, a13], [a20, a21, a23]]],
     [- det [[a10, a11, a12], [a20, a21, a22], [a30, a31, a32]],
        det [[a00, a01, a02], [a20, a21, a22], [a30, a31, a32]],
      - det [[a00, a01, a02], [a10, a11, a12], [a30, a31, a32]],
        det [[a00, a01, a02], [a10, a11, a12], [a20, a21, a22]]]]"
  unfolding m_def by (simp add: upt_conv_Cons cofactor_def del4 del: det.simps)

lemma matmul4:
  "matmul [[a00, a01, a02, a03], [a10, a11, a12, a13], [a20, a21, a22, a23], [a30, a31, a32, a33]]
          [[b00, b01, b02, b03], [b10, b11, b12, b13], [b20, b21, b22, b23], [b30, b31, b32, b33]] =
    [[a00 * b00 + a01 * b10 + a02 * b20 + a03 * b30, a00 * b01 + a01 * b11 + a02 * b21 + a03 * b31,
      a00 * b02 + a01 * b12 + a02 * b22 + a03 * b32, a00 * b03 + a01 * b13 + a02 * b23 + a03 * b33],
     [a10 * b00 + a11 * b10 + a12 * b20 + a13 * b30, a10 * b01 + a11 * b11 + a12 * b21 + a13 * b31,
      a10 * b02 + a11 * b12 + a12 * b22 + a13 * b32, a10 * b03 + a11 * b13 + a12 * b23 + a13 * b33],
     [a20 * b00 + a21 * b10 + a22 * b20 + a23 * b30, a20 * b01 + a21 * b11 + a22 * b21 + a23 * b31,
      a20 * b02 + a21 * b12 + a22 * b22 + a23 * b32, a20 * b03 + a21 * b13 + a22 * b23 + a23 * b33],
     [a30 * b00 + a31 * b10 + a32 * b20 + a33 * b30, a30 * b01 + a31 * b11 + a32 * b21 + a33 * b31,
      a30 * b02 + a31 * b12 + a32 * b22 + a33 * b32, a30 * b03 + a31 * b13 + a32 * b23 + a33 * b33]]"
  by (simp add: matmul_def ncols_def col_def upt_conv_Cons)

lemma adj_mul:
  fixes a00 a01 a02 a03 a10 a11 a12 a13 a20 a21 a22 a23 a30 a31 a32 a33 :: real
  defines "m \<equiv> [[a00, a01, a02, a03], [a10, a11, a12, a13], [a20, a21, a22, a23], [a30, a31, a32, a33]]"
  shows "matmul (map (\<lambda>i. map (\<lambda>j. cofactor m j i) [0..<4]) [0..<4]) m =
         map (map (\<lambda>x. det m * x)) identity4"
  unfolding m_def cofactor4 matmul4 det4_expl det3_expl identity4_def
  by (simp add: algebra_simps)


lemma mul_adj:
  fixes a00 a01 a02 a03 a10 a11 a12 a13 a20 a21 a22 a23 a30 a31 a32 a33 :: real
  defines "m \<equiv> [[a00, a01, a02, a03], [a10, a11, a12, a13], [a20, a21, a22, a23], [a30, a31, a32, a33]]"
  shows "matmul m (map (\<lambda>i. map (\<lambda>j. cofactor m j i) [0..<4]) [0..<4]) =
         map (map (\<lambda>x. det m * x)) identity4"
  unfolding m_def cofactor4 matmul4 det4_expl det3_expl identity4_def
  by (simp add: algebra_simps)

lemma matmul_scale_left:
  "matmul (map (map (\<lambda>x. x / d))
             [[a00, a01, a02, a03], [a10, a11, a12, a13], [a20, a21, a22, a23], [a30, a31, a32, a33]])
          [[b00, b01, b02, b03], [b10, b11, b12, b13], [b20, b21, b22, b23], [b30, b31, b32, b33]] =
   map (map (\<lambda>x. x / d))
     (matmul [[a00, a01, a02, a03], [a10, a11, a12, a13], [a20, a21, a22, a23], [a30, a31, a32, a33]]
             [[b00, b01, b02, b03], [b10, b11, b12, b13], [b20, b21, b22, b23], [b30, b31, b32, b33]])"
  by (simp add: matmul4 add_divide_distrib)

lemma matmul_scale_right:
  "matmul [[b00, b01, b02, b03], [b10, b11, b12, b13], [b20, b21, b22, b23], [b30, b31, b32, b33]]
          (map (map (\<lambda>x. x / d))
             [[a00, a01, a02, a03], [a10, a11, a12, a13], [a20, a21, a22, a23], [a30, a31, a32, a33]]) =
   map (map (\<lambda>x. x / d))
     (matmul [[b00, b01, b02, b03], [b10, b11, b12, b13], [b20, b21, b22, b23], [b30, b31, b32, b33]]
             [[a00, a01, a02, a03], [a10, a11, a12, a13], [a20, a21, a22, a23], [a30, a31, a32, a33]])"
  by (simp add: matmul4 add_divide_distrib)

lemma matmul_assoc4:
  assumes "is_mat4 a" "is_mat4 b" "is_mat4 c"
  shows "matmul (matmul a b) c = matmul a (matmul b c)"
proof -
  from assms(1) obtain a00 a01 a02 a03 a10 a11 a12 a13 a20 a21 a22 a23 a30 a31 a32 a33 where
    a: "a = [[a00, a01, a02, a03], [a10, a11, a12, a13], [a20, a21, a22, a23], [a30, a31, a32, a33]]"
    by (rule is_mat4_expl)
  from assms(2) obtain b00 b01 b02 b03 b10 b11 b12 b13 b20 b21 b22 b23 b30 b31 b32 b33 where
    b: "b = [[b00, b01, b02, b03], [b10, b11, b12, b13], [b20, b21, b22, b23], [b30, b31, b32, b33]]"
    by (rule is_mat4_expl)
  from assms(3) obtain c00 c01 c02 c03 c10 c11 c12 c13 c20 c21 c22 c23 c30 c31 c32 c33 where
    c: "c = [[c00, c01, c02, c03], [c10, c11, c12, c13], [c20, c21, c22, c23], [c30, c31, c32, c33]]"
    by (rule is_mat4_expl)
  show ?thesis unfolding a b c matmul4 by (simp add: algebra_simps)
qed

lemma matmul_is_mat4:
  assumes "is_mat4 a" "is_mat4 b"
  shows "is_mat4 (matmul a b)"
proof -
  from assms(1) obtain a00 a01 a02 a03 a10 a11 a12 a13 a20 a21 a22 a23 a30 a31 a32 a33 where
    a: "a = [[a00, a01, a02, a03], [a10, a11, a12, a13], [a20, a21, a22, a23], [a30, a31, a32, a33]]"
    by (rule is_mat4_expl)
  from assms(2) obtain b00 b01 b02 b03 b10 b11 b12 b13 b20 b21 b22 b23 b30 b31 b32 b33 where
    b: "b = [[b00, b01, b02, b03], [b10, b11, b12, b13], [b20, b21, b22, b23], [b30, b31, b32, b33]]"
    by (rule is_mat4_expl)
  show ?thesis unfolding a b matmul4 by (simp add: is_mat4_def)
qed

lemma matmul_identity_left:
  assumes "is_mat4 t"
  shows "matmul identity4 t = t"
proof -
  from assms obtain t00 t01 t02 t03 t10 t11 t12 t13 t20 t21 t22 t23 t30 t31 t32 t33 where
    t: "t = [[t00, t01, t02, t03], [t10, t11, t12, t13], [t20, t21, t22, t23], [t30, t31, t32, t33]]"
    by (rule is_mat4_expl)
  show ?thesis unfolding t identity4_def matmul4 by simp
qed

text \<open>On a regular 4 x 4 matrix \<^verbatim>\<open>np.linalg.inv\<close> returns a two-sided inverse.\<close>

lemma linalg_inv4:
  assumes "is_mat4 m" "det m \<noteq> 0"
  shows "\<exists>mi. linalg_inv m = Inr mi \<and> is_mat4 mi \<and>
           matmul mi m = identity4 \<and> matmul m mi = identity4"
proof -
  from assms(1) obtain a00 a01 a02 a03 a10 a11 a12 a13 a20 a21 a22 a23 a30 a31 a32 a33 where
    m: "m = [[a00, a01, a02, a03], [a10, a11, a12, a13], [a20, a21, a22, a23], [a30, a31, a32, a33]]"
    by (rule is_mat4_expl)
  let ?adj = "map (\<lambda>i. map (\<lambda>j. cofactor m j i) [0..<4]) [0..<4]"
  let ?mi = "map (map (\<lambda>x. x / det m)) ?adj"
  have len: "length m = 4" using assms(1) by (simp add: is_mat4_def)
  have inv: "linalg_inv m = Inr ?mi"
    using assms(2) len by (simp add: linalg_inv_def o_def)
  have unit: "map (map (\<lambda>x. x / det m)) (map (map (\<lambda>x. det m * x)) identity4) = identity4"
    using assms(2) by (simp add: identity4_def)
  have l: "matmul ?mi m = identity4"
    using unit adj_mul[of a00 a01 a02 a03 a10 a11 a12 a13 a20 a21 a22 a23 a30 a31 a32 a33]
    unfolding m cofactor4 matmul_scale_left by simp
  have r: "matmul m ?mi = identity4"
    using unit mul_adj[of a00 a01 a02 a03 a10 a11 a12 a13 a20 a21 a22 a23 a30 a31 a32 a33]
    unfolding m cofactor4 matmul_scale_right by simp
  have "is_mat4 ?mi" unfolding m cofactor4 by (simp add: is_mat4_def)
  then show ?thesis using inv l r by blast
qed

lemmas frame_eval = sim_to_april_mat_def april_to_sim_mat_def linalg_inv_def cofactor_def
  is_mat4_def del4 det3_expl det4_expl matmul4 upt_conv_Cons

lemmas step_eval = rl_step_def simulate_step_def handle_bulb_rest_pose_def clamp_action_def
  grip_width_def rl_reward_def reward_loop_def reward_pair_def assembled_mask_def set_col_def
  col_def any_dim0_def any_dim1_def unsqueeze_last_def rl_done_def sum_dim1_def Let_def
  where_true_def index_fill_def wrap32_def fits_int64_def float32_small
  halfway_threshold_small half_overflows_small upt_conv_Cons eval_nat_numeral

lemmas wf_eval = wf_env_def wf_step_in_def wf_obs_def wf_pair_obs_def

lemmas ex_defs = ex_env_def ex_manual_def ex_lamp_def ob_first_def ob_none_def in_both_def
  in_none_def ex_latched_def reset_ok_def ex_run_def ex_lamp_start_def in_touch_def in_grasp_def
  ex_draws_def ex_single_def ex_pose_def ex_lamp_touched_def ex_lamp_reset0_def
  ex_far_horizon_def ex_lamp_long_def ex_lamp_wrap_def

lemmas perturb_eval = random_perturbation_of_parts_def mask_select_def index_put_def Let_def
  wf_perturb_def shape_def selected_bodies_def

lemmas poses_eval = get_parts_poses_def gather_poses_def reshape_rows_def base_reward_def
  unpack_pair_def wf_poses_def shape_def Let_def upt_conv_Cons

lemmas reset_eval = rl_reset_def norm_index_def named_envs_def index_fill_def Let_def

lemma ex_step_both:
  "rl_step ex_env in_both =
     Inr (ex_env\<lparr>env_steps := [3, 1], last_grasp := [1, - 1],
                 already_assembled := [[True, True], [False, False]]\<rparr>,
          \<lparr>commands = \<lparr>grip_sep = [0, 0.08], bulb_calls = [None, None]\<rparr>,
           reward = Some [[1], [0]], terminated = [[True], [False]],
           truncated = [[True], [False]], applied_forces = None\<rparr>)"
  by (simp add: step_eval ex_defs)

lemma ex_manual_step_both:
  "rl_step ex_manual in_both =
     Inr (ex_manual\<lparr>env_steps := [3, 1], last_grasp := [1, - 1],
                    already_assembled := [[True, True], [False, False]]\<rparr>,
          \<lparr>commands = \<lparr>grip_sep = [0, 0.08], bulb_calls = [None, None]\<rparr>,
           reward = None, terminated = [[False], [False]],
           truncated = [[False], [False]], applied_forces = None\<rparr>)"
  by (simp add: step_eval ex_defs)

lemma ex_manual_step_none:
  "rl_step ex_manual in_none =
     Inr (ex_manual\<lparr>env_steps := [3, 1], last_grasp := [1, - 1]\<rparr>,
          \<lparr>commands = \<lparr>grip_sep = [0, 0.08], bulb_calls = [None, None]\<rparr>,
           reward = Some [[0], [0]], terminated = [[False], [False]],
           truncated = [[False], [False]], applied_forces = None\<rparr>)"
  by (simp add: step_eval ex_defs)

text \<open>
  Conversions at the edge of float32, whose significand has 24 bits: \<open>2^24 + 1\<close> becomes
  \<open>2^24\<close>, the largest int32 value becomes \<open>2^31\<close>, and half of \<open>2^25\<close> is exact.
\<close>

lemma float32_rounds:
  "float32 16777217 = 16777216" "float32 16777219 = 16777220" "float32 (- 16777219) = - 16777220"
  "float32 2147483647 = 2147483648" "float32 (- 2147483648) = - 2147483648"
  by (simp_all add: float_eval)

lemma halfway_threshold_edge:
  "halfway_threshold 33554432 = 16777216" "half_overflows 33554432 = False"
  by (simp_all add: halfway_threshold_def half_overflows_def float_eval)

section \<open>Reward of a tick\<close>

text \<open>
  Claim C2. Outside manual mode (\<^verbatim>\<open>manual_done\<close> not set), the reward a step call
  returns for an environment is 1 if at least one required pair went from unassembled to
  assembled in that environment during the tick, and 0 otherwise; simultaneous transitions
  of several pairs give 1.
\<close>

theorem reward_is_transition_indicator:
  assumes "wf_env s" and "wf_step_in s inp" and "\<not> manual_done s"
    and "rl_step s inp = Inr (s', out)" and "e < num_envs s"
  shows "\<exists>r. reward out = Some r \<and> length r = num_envs s \<and>
           r ! e = [if (\<exists>j<length (pairs_to_assemble s).
                         \<not> already_assembled s ! e ! j \<and> already_assembled s' ! e ! j)
                    then 1 else 0]"
proof -
  have sh: "shape (num_envs s) (length (pairs_to_assemble s)) (already_assembled s)"
    using assms(1) by (rule wf_env_shape)
  have "reward out = Some (map (\<lambda>e. [if newly_assembled s (pose_obs inp) e then 1 else 0]) [0..<num_envs s])"
    using rl_step_spec(2)[OF sh assms(4)] assms(3) by simp
  then show ?thesis
    using assms(5) transition_iff_newly[OF assms(1) assms(4) assms(5)] by simp
qed

text \<open>
  In \<open>ex_env\<close> both pairs of environment 0 snap together on the same tick and none in
  environment 1: the rewards are 1 and 0.
\<close>

theorem reward_is_transition_indicator_witness:
  "wf_env ex_env \<and> wf_step_in ex_env in_both \<and> \<not> manual_done ex_env \<and>
   map_sum id (\<lambda>r. reward (snd r)) (rl_step ex_env in_both) = Inr (Some [[1], [0]])"
proof -
  have wf: "wf_env ex_env" by (simp add: wf_eval ex_defs)
  have wi: "wf_step_in ex_env in_both" by (simp add: wf_eval ex_defs)
  have nm: "\<not> manual_done ex_env" by (simp add: ex_defs)
  have e0: "0 < num_envs ex_env" and e1: "1 < num_envs ex_env" by (simp_all add: ex_defs)
  note st = ex_step_both
  have "\<exists>r. Some [[1], [0::real]] = Some r \<and> length r = 2 \<and> r ! 0 = [1]"
    using reward_is_transition_indicator[OF wf wi nm st e0] by (simp add: ex_defs)
  then show ?thesis using wf wi nm st by simp
qed

section \<open>Termination and truncation flags\<close>

text \<open>
  Claim C3, as amended. Outside manual mode (\<^verbatim>\<open>manual_done\<close> not set), the step call
  made when the step counter of an environment equals \<^verbatim>\<open>max_env_steps - 1\<close> returns
  truncated = True for it, every step call made when the counter is strictly below
  returns truncated = False, whatever the assembly state; and terminated is True exactly
  when all required pairs of the environment are latched as assembled after the tick.
  The horizon is one that the int32 counters can reach: \<^verbatim>\<open>max_env_steps - 1\<close> is an int32
  value, so that the cast of the comparison does not change it.
\<close>

theorem truncated_at_horizon_terminated_when_assembled:
  assumes "wf_env s" and "wf_step_in s inp" and "\<not> manual_done s"
    and "fits_int32 (max_env_steps s - 1)"
    and "rl_step s inp = Inr (s', out)" and "e < num_envs s"
  shows "(env_steps s ! e = max_env_steps s - 1 \<longrightarrow> truncated out ! e = [True]) \<and>
         (env_steps s ! e < max_env_steps s - 1 \<longrightarrow> truncated out ! e = [False]) \<and>
         terminated out ! e = [\<forall>j<length (pairs_to_assemble s). already_assembled s' ! e ! j]"
proof -
  have "wrap32 (max_env_steps s - 1) = max_env_steps s - 1"
    using assms(4) by (simp add: fits_int32_def wrap32_id)
  then show ?thesis
    using rl_step_done(1,2)[OF assms(1) assms(5) assms(6) assms(3)] by simp
qed

text \<open>
  In \<open>ex_env\<close> the horizon is 3: environment 0, at counter 2, is truncated (and
  terminated, both pairs latching on this tick), environment 1, at counter 0, is neither.
\<close>

theorem truncated_at_horizon_terminated_when_assembled_witness:
  "wf_env ex_env \<and> wf_step_in ex_env in_both \<and> \<not> manual_done ex_env \<and>
   fits_int32 (max_env_steps ex_env - 1) \<and>
   env_steps ex_env ! 0 = max_env_steps ex_env - 1 \<and>
   env_steps ex_env ! 1 < max_env_steps ex_env - 1 \<and>
   map_sum id (\<lambda>r. (terminated (snd r), truncated (snd r))) (rl_step ex_env in_both) =
     Inr ([[True], [False]], [[True], [False]])"
proof -
  have wf: "wf_env ex_env" by (simp add: wf_eval ex_defs)
  have wi: "wf_step_in ex_env in_both" by (simp add: wf_eval ex_defs)
  have nm: "\<not> manual_done ex_env" by (simp add: ex_defs)
  have fit: "fits_int32 (max_env_steps ex_env - 1)" by (simp add: fits_int32_def ex_defs)
  have e0: "0 < num_envs ex_env" and e1: "1 < num_envs ex_env" by (simp_all add: ex_defs)
  have c0: "env_steps ex_env ! 0 = max_env_steps ex_env - 1"
    and c1: "env_steps ex_env ! 1 < max_env_steps ex_env - 1" by (simp_all add: ex_defs)
  note st = ex_step_both
  have "[[True], [False]] ! 0 = [True]"
    using truncated_at_horizon_terminated_when_assembled[OF wf wi nm fit st e0] c0 by simp
  moreover have "[[True], [False]] ! 1 = [False]"
    using truncated_at_horizon_terminated_when_assembled[OF wf wi nm fit st e1] c1 by simp
  ultimately show ?thesis using wf wi nm fit c0 c1 st by simp
qed

text \<open>
  The claim as stated, for every step call, fails in manual mode: with \<^verbatim>\<open>manual_done\<close>
  set, the step at counter \<^verbatim>\<open>max_env_steps - 1\<close> returns truncated = False, and
  terminated = False although both pairs are latched. It also fails for a horizon beyond
  the int32 range of the counters: with \<^verbatim>\<open>max_env_steps\<close> = \<open>2^31 + 1\<close> the counters 1
  and 2 are compared with the int32 cast of \<open>2^31\<close>, and truncated = True is returned
  for both.
\<close>

theorem truncation_fails_in_manual_mode_and_beyond_int32:
  "wf_env ex_manual \<and> wf_step_in ex_manual in_both \<and>
   env_steps ex_manual ! 0 = max_env_steps ex_manual - 1 \<and>
   map_sum id (\<lambda>r. (already_assembled (fst r) ! 0, terminated (snd r) ! 0, truncated (snd r) ! 0))
     (rl_step ex_manual in_both) = Inr ([True, True], [False], [False]) \<and>
   wf_env ex_far_horizon \<and> wf_step_in ex_far_horizon in_none \<and> \<not> manual_done ex_far_horizon \<and>
   env_steps ex_far_horizon ! 0 < max_env_steps ex_far_horizon - 1 \<and>
   env_steps ex_far_horizon ! 1 < max_env_steps ex_far_horizon - 1 \<and>
   map_sum id (\<lambda>r. truncated (snd r)) (rl_step ex_far_horizon in_none) = Inr [[True], [True]]"
proof -
  have "map_sum id (\<lambda>r. truncated (snd r)) (rl_step ex_far_horizon in_none) = Inr [[True], [True]]"
    by (simp add: ex_defs step_eval)
  then show ?thesis by (simp add: ex_manual_step_both) (simp add: wf_eval ex_defs)
qed

section \<open>Manual mode\<close>

text \<open>
  Claim C5. In manual mode every step call is to return reward zero and terminated and
  truncated false for every environment, while the assembly bits still advance. The
  source does not achieve this on a tick on which a pair newly matches: with
  \<^verbatim>\<open>manual_done\<close> set, \<^verbatim>\<open>_reward\<close> then ends in \<^verbatim>\<open>return print("Part assembled!")\<close>,
  and the step call returns Python's \<^verbatim>\<open>None\<close> in place of the reward tensor. In
  \<open>ex_manual\<close> (both \<^verbatim>\<open>manual_done\<close> and \<^verbatim>\<open>manual_label\<close> set) the tick \<open>in_both\<close>, on
  which both pairs of environment 0 match, latches the two bits and returns false flags
  but no reward; the tick \<open>in_none\<close>, on which nothing matches, returns the zero reward.
\<close>

theorem manual_done_returns_none_on_new_match:
  "wf_env ex_manual \<and> wf_step_in ex_manual in_both \<and>
   manual_done ex_manual \<and> manual_label ex_manual \<and>
   already_assembled ex_manual = [[False, False], [False, False]] \<and>
   map_sum id (\<lambda>r. (already_assembled (fst r), reward (snd r), terminated (snd r), truncated (snd r)))
     (rl_step ex_manual in_both) =
     Inr ([[True, True], [False, False]], None, [[False], [False]], [[False], [False]]) \<and>
   map_sum id (\<lambda>r. (already_assembled (fst r), reward (snd r), terminated (snd r), truncated (snd r)))
     (rl_step ex_manual in_none) =
     Inr ([[False, False], [False, False]], Some [[0], [0]], [[False], [False]], [[False], [False]])"
  by (simp add: ex_manual_step_both ex_manual_step_none) (simp add: wf_eval ex_defs)

section \<open>Latching of the assembly state\<close>

text \<open>
  Claim C1. Once the latched state (\<^verbatim>\<open>already_assembled\<close> bit) of a required pair is
  true in an environment, it is true after every run of step and reset calls in which no
  reset names that environment, whatever the poses the steps observe: it stays true on
  every subsequent step call and can become false only by a reset of that environment.
\<close>

theorem assembly_latched_until_reset:
  assumes "wf_env s" and "list_all (wf_event s) evs" and "exec s evs = Inr s'"
    and "e < num_envs s" and "j < length (pairs_to_assemble s)"
    and "already_assembled s ! e ! j"
    and "list_all (\<lambda>ev. \<not> resets (num_envs s) ev e) evs"
  shows "already_assembled s' ! e ! j"
  using exec_latched[OF assms(3) wf_env_shape[OF assms(1)] assms(4,5,6,7)] .

text \<open>
  In \<open>ex_latched\<close> the first pair of environment 0 is latched. After a tick, a reset of
  environment 1 and another tick, none of which sees a match, it still is, while the
  latched pair of environment 1 is cleared.
\<close>

theorem assembly_latched_until_reset_witness:
  "wf_env ex_latched \<and> list_all (wf_event ex_latched) ex_run \<and>
   already_assembled ex_latched ! 0 ! 0 \<and>
   list_all (\<lambda>ev. \<not> resets (num_envs ex_latched) ev 0) ex_run \<and>
   map_sum id already_assembled (exec ex_latched ex_run) = Inr [[True, False], [False, False]]"
proof -
  have wf: "wf_env ex_latched" by (simp add: wf_eval ex_defs)
  have we: "list_all (wf_event ex_latched) ex_run" by (simp add: wf_eval ex_defs)
  have e: "0 < num_envs ex_latched" and j: "0 < length (pairs_to_assemble ex_latched)"
    by (simp_all add: ex_defs)
  have b: "already_assembled ex_latched ! 0 ! 0" by (simp add: ex_defs)
  have nr: "list_all (\<lambda>ev. \<not> resets (num_envs ex_latched) ev 0) ex_run"
    by (simp add: ex_defs reset_eval)
  have ex: "exec ex_latched ex_run =
      Inr (ex_latched\<lparr>env_steps := [3, 1], last_grasp := [1, - 1],
                      already_assembled := [[True, False], [False, False]]\<rparr>)"
    by (simp add: ex_defs step_eval reset_eval)
  have "[[True, False], [False, False]] ! 0 ! 0"
    using assembly_latched_until_reset[OF wf we ex e j b nr] by simp
  then show ?thesis using wf we b nr ex by simp
qed

section \<open>Reset of a subset of environments\<close>

text \<open>
  Claim C9. A reset called with an explicitly given but empty index tensor fails its
  assertion (it is not a silent no-op); a reset without argument resets all environments;
  and for every non-empty tensor of valid indices a reset clears the assembly bits and
  zeroes the step counters of exactly the named environments. (The engine accepts the
  joint states the reset writes.)
\<close>

theorem reset_clears_exactly_named:
  assumes "wf_env s" and "dof_state_ok rin" and "dof_target_ok rin"
    and "ks \<noteq> []" and "list_all (\<lambda>k. - int (num_envs s) \<le> k \<and> k < int (num_envs s)) ks"
  shows "rl_reset s0 (Some []) rin0 = Inl AssertionError \<and>
         (\<exists>s'. rl_reset s None rin = Inr s' \<and>
            (\<forall>e<num_envs s.
               already_assembled s' ! e = replicate (length (pairs_to_assemble s)) False \<and>
               env_steps s' ! e = 0)) \<and>
         (\<exists>s'. rl_reset s (Some ks) rin = Inr s' \<and>
            (\<forall>e<num_envs s.
               if e \<in> named_envs (num_envs s) (Some ks)
               then already_assembled s' ! e = replicate (length (pairs_to_assemble s)) False \<and>
                    env_steps s' ! e = 0
               else already_assembled s' ! e = already_assembled s ! e \<and>
                    env_steps s' ! e = env_steps s ! e))"
proof -
  have sh: "shape (num_envs s) (length (pairs_to_assemble s)) (already_assembled s)"
    using assms(1) by (rule wf_env_shape)
  have es: "length (env_steps s) = num_envs s" and n: "0 < num_envs s"
    using assms(1) by (simp_all add: wf_env_def)
  have a: "rl_reset s0 (Some []) rin0 = Inl AssertionError"
    by (simp add: rl_reset_def)
  obtain s1 where s1: "rl_reset s None rin = Inr s1"
    using rl_reset_total[OF assms(2,3), where arg = None and s = s] n by auto
  have b: "\<forall>e<num_envs s.
               already_assembled s1 ! e = replicate (length (pairs_to_assemble s)) False \<and>
               env_steps s1 ! e = 0"
    using rl_reset_rows(1,2)[OF s1 sh es] by (simp add: named_envs_def)
  have valid: "\<forall>k\<in>set ks. norm_index (num_envs s) k \<noteq> None"
    using assms(5) by (auto simp: list_all_iff norm_index_def)
  obtain s2 where s2: "rl_reset s (Some ks) rin = Inr s2"
    using rl_reset_total[OF assms(2,3), where arg = "Some ks" and s = s] assms(4) valid by auto
  have c: "\<forall>e<num_envs s.
               if e \<in> named_envs (num_envs s) (Some ks)
               then already_assembled s2 ! e = replicate (length (pairs_to_assemble s)) False \<and>
                    env_steps s2 ! e = 0
               else already_assembled s2 ! e = already_assembled s ! e \<and>
                    env_steps s2 ! e = env_steps s ! e"
    using rl_reset_rows(1,2)[OF s2 sh es] by simp
  show ?thesis using a s1 b s2 c by blast
qed

text \<open>
  In \<open>ex_latched\<close>: the empty tensor raises, no argument clears both environments, and
  the index -1 clears environment 1 and leaves environment 0 as it was.
\<close>

theorem reset_clears_exactly_named_witness:
  "wf_env ex_latched \<and> dof_state_ok reset_ok \<and> dof_target_ok reset_ok \<and>
   rl_reset ex_latched (Some []) reset_ok = Inl AssertionError \<and>
   map_sum id (\<lambda>s. (already_assembled s, env_steps s)) (rl_reset ex_latched None reset_ok) =
     Inr ([[False, False], [False, False]], [0, 0]) \<and>
   map_sum id (\<lambda>s. (already_assembled s, env_steps s)) (rl_reset ex_latched (Some [- 1]) reset_ok) =
     Inr ([[True, False], [False, False]], [1, 0])"
proof -
  have wf: "wf_env ex_latched" by (simp add: wf_eval ex_defs)
  have ok: "dof_state_ok reset_ok" "dof_target_ok reset_ok" by (simp_all add: ex_defs)
  have ne: "[- 1 :: int] \<noteq> []" by simp
  have valid: "list_all (\<lambda>k. - int (num_envs ex_latched) \<le> k \<and> k < int (num_envs ex_latched)) [- 1]"
    by (simp add: ex_defs)
  have "rl_reset ex_latched (Some []) reset_ok = Inl AssertionError"
    using reset_clears_exactly_named[OF wf ok ne valid, of ex_latched reset_ok] by simp
  moreover have "map_sum id (\<lambda>s. (already_assembled s, env_steps s)) (rl_reset ex_latched None reset_ok) =
     Inr ([[False, False], [False, False]], [0, 0])"
    by (simp add: ex_defs reset_eval upt_conv_Cons eval_nat_numeral)
  moreover have "map_sum id (\<lambda>s. (already_assembled s, env_steps s)) (rl_reset ex_latched (Some [- 1]) reset_ok) =
     Inr ([[True, False], [False, False]], [1, 0])"
    by (simp add: ex_defs reset_eval upt_conv_Cons eval_nat_numeral)
  ultimately show ?thesis using wf ok by simp
qed

section \<open>Holding and releasing the lamp bulb\<close>




section \<open>Gripper debounce\<close>

text \<open>
  Claim C4. A sequence of step calls whose grasp scalars flip sign but stay below the
  hysteresis margin in absolute value should never change the commanded gripper width.
  The source does not achieve this: \<^verbatim>\<open>last_grasp\<close> is overwritten with every grasp
  scalar, also with one the margin rejected, and the width of a rejected command follows
  the sign of \<^verbatim>\<open>last_grasp\<close>. From the constructed state (\<^verbatim>\<open>last_grasp\<close> = -1), after a
  tick that commands the open gripper, the grasp scalars 0.01 and -0.01 (the margin is
  0.019) leave the gripper of environment 0 open on the first tick and close it on the
  second.
\<close>

theorem gripper_width_changes_below_margin:
  "\<bar>0.01\<bar> < grasp_margin ex_env \<and> \<bar>- 0.01\<bar> < grasp_margin ex_env \<and>
   map_sum id (\<lambda>r. map (\<lambda>out. grip_sep (commands out) ! 0) (snd r))
     (run_steps ex_env [in_grasp (- 1), in_grasp 0.01, in_grasp (- 0.01)]) =
     Inr [max_gripper_width ex_env, max_gripper_width ex_env, 0] \<and>
   max_gripper_width ex_env \<noteq> 0"
  by (simp add: ex_defs step_eval)

section \<open>Random perturbation of parts\<close>

text \<open>
  Claim C6. A call of the perturbation operation with both magnitudes zero hands all-zero
  force and torque tensors to the engine, whatever the random selection mask; and a call
  with any magnitudes hands the engine zero force and zero torque for every rigid body
  that is not in the randomly selected subset.
\<close>

theorem perturbation_zero_outside_selection:
  assumes "wf_perturb s d"
  shows "random_perturbation_of_parts s 0 0 d =
           Inr (replicate (rigid_body_count s) [0, 0, 0], replicate (rigid_body_count s) [0, 0, 0]) \<and>
         (\<exists>frc trq. random_perturbation_of_parts s max_force max_torque d = Inr (frc, trq) \<and>
            length frc = rigid_body_count s \<and> length trq = rigid_body_count s \<and>
            (\<forall>b<rigid_body_count s. b \<notin> selected_bodies s d \<longrightarrow>
               frc ! b = [0, 0, 0] \<and> trq ! b = [0, 0, 0]))"
proof -
  let ?msk = "map (\<lambda>u. u < 0.01) (u_select d)"
  let ?sel = "mask_select ?msk (concat (rigid_body_index_by_env s))"
  let ?z = "replicate (rigid_body_count s) [0, 0, 0::real]"
  have sel: "list_all (\<lambda>k. k < length ?z) ?sel"
    using wf_perturb_sel[OF assms, of ?msk] by simp
  have put: "index_put ?sel vals ?z = Inr (fold (\<lambda>kv u. u[fst kv := snd kv]) (zip ?sel vals) ?z)"
    for vals by (rule index_put_Inr[OF sel])
  have zf: "list_all (\<lambda>v. v = [0, 0, 0]) (mask_select ?msk (gen_forces s 0 d))"
    using gen_forces_zero[of s d] mask_select_subset[of ?msk "gen_forces s 0 d"]
    by (auto simp: list_all_iff)
  have zt: "list_all (\<lambda>v. v = [0, 0, 0]) (mask_select ?msk (gen_torques s 0 d))"
    using gen_torques_zero[of s d] mask_select_subset[of ?msk "gen_torques s 0 d"]
    by (auto simp: list_all_iff)
  have zero: "random_perturbation_of_parts s 0 0 d = Inr (?z, ?z)"
    unfolding perturbation_unfold Let_def put put_same[OF zf] put_same[OF zt] by simp
  let ?frc = "fold (\<lambda>kv u. u[fst kv := snd kv]) (zip ?sel (mask_select ?msk (gen_forces s max_force d))) ?z"
  let ?trq = "fold (\<lambda>kv u. u[fst kv := snd kv]) (zip ?sel (mask_select ?msk (gen_torques s max_torque d))) ?z"
  have res: "random_perturbation_of_parts s max_force max_torque d = Inr (?frc, ?trq)"
    unfolding perturbation_unfold Let_def put by simp
  have out: "\<forall>b<rigid_body_count s. b \<notin> selected_bodies s d \<longrightarrow>
               ?frc ! b = [0, 0, 0] \<and> ?trq ! b = [0, 0, 0]"
    by (simp add: selected_bodies_def put_outside)
  show ?thesis using zero res out by simp
qed

text \<open>
  With \<open>ex_draws\<close> only rigid body 1 is selected: at the ceilings of \<open>ex_env\<close> it
  receives the force (3, 0, 0) and the torque (0, 0, 0.21), every other body zero; at zero
  ceilings all bodies receive zero.
\<close>

theorem perturbation_zero_outside_selection_witness:
  "wf_perturb ex_env ex_draws \<and>
   selected_bodies ex_env ex_draws = {1} \<and>
   random_perturbation_of_parts ex_env 0 0 ex_draws = Inr (replicate 8 [0, 0, 0], replicate 8 [0, 0, 0]) \<and>
   random_perturbation_of_parts ex_env (max_force_magnitude ex_env) (max_torque_magnitude ex_env) ex_draws =
     Inr ((replicate 8 [0, 0, 0])[1 := [3, 0, 0]], (replicate 8 [0, 0, 0])[1 := [0, 0, 0.21]])"
proof -
  have wf: "wf_perturb ex_env ex_draws" by (simp add: perturb_eval ex_defs)
  have sel: "selected_bodies ex_env ex_draws = {1}" by (simp add: perturb_eval ex_defs)
  have run: "random_perturbation_of_parts ex_env (max_force_magnitude ex_env) (max_torque_magnitude ex_env) ex_draws =
     Inr ((replicate 8 [0, 0, 0])[1 := [3, 0, 0]], (replicate 8 [0, 0, 0])[1 := [0, 0, 0.21]])"
    by (simp add: perturb_eval ex_defs eval_nat_numeral)
  have "random_perturbation_of_parts ex_env 0 0 ex_draws =
          Inr (replicate (rigid_body_count ex_env) [0, 0, 0], replicate (rigid_body_count ex_env) [0, 0, 0])"
    using perturbation_zero_outside_selection[OF wf] by simp
  then show ?thesis using wf sel run by (simp add: ex_defs)
qed

section \<open>Part poses in the simulator frame\<close>

text \<open>
  Claim C10, as amended. Every call of \<^verbatim>\<open>get_parts_poses\<close> with \<^verbatim>\<open>sim_coord=True\<close>
  returns a single tensor of shape (num_envs, num_parts * 7), not a pair; consequently
  the reward of the base class, when \<^verbatim>\<open>manual_label\<close> is not set, unpacks this tensor
  into two values and can return only when num_envs equals 2.
\<close>

theorem parts_poses_is_one_tensor:
  assumes "wf_poses s num_parts"
  shows "(\<exists>t. get_parts_poses to_robot to_april s True robot_coord = Inr t \<and>
            shape (num_envs s) (num_parts * 7) t) \<and>
         (\<not> manual_label s \<and> (\<exists>r. base_reward compute_assemble to_robot to_april s = Inr r)
            \<longrightarrow> num_envs s = 2)"
proof -
  have "num_envs s = 2"
    if nl: "\<not> manual_label s" and r: "base_reward compute_assemble to_robot to_april s = Inr r" for r
  proof -
    from get_parts_poses_sim[OF assms, of to_robot to_april False] obtain t where
      t: "get_parts_poses to_robot to_april s True False = Inr t"
      and sh: "shape (num_envs s) (num_parts * 7) t" by blast
    from r nl t obtain ab where "unpack_pair t = Inr ab"
      by (auto simp: base_reward_def split: sum.splits)
    then have "length t = 2" by (rule unpack_pair_Inr)
    then show ?thesis using sh by (simp add: shape_def)
  qed
  then show ?thesis using get_parts_poses_sim[OF assms] by blast
qed

text \<open>
  In \<open>ex_env\<close>, with two environments of three parts, the tensor is (2, 21), and the
  reward of the base class unpacks its two rows and returns.
\<close>

theorem parts_poses_is_one_tensor_witness:
  "wf_poses ex_env 3 \<and> \<not> manual_label ex_env \<and>
   map_sum id (\<lambda>t. (length t, map length t))
     (get_parts_poses (\<lambda>t. t) (\<lambda>t. t) ex_env True False) = Inr (2, [21, 21]) \<and>
   base_reward (\<lambda>e p f. Inr 1) (\<lambda>t. t) (\<lambda>t. t) ex_env = Inr [[1], [1]] \<and>
   num_envs ex_env = 2"
proof -
  have wf: "wf_poses ex_env 3" by (simp add: poses_eval ex_defs list_all_iff)
  have nl: "\<not> manual_label ex_env" by (simp add: ex_defs)
  have g: "map_sum id (\<lambda>t. (length t, map length t))
     (get_parts_poses (\<lambda>t. t) (\<lambda>t. t) ex_env True False) = Inr (2, [21, 21])"
    by (simp add: poses_eval ex_defs)
  have r: "base_reward (\<lambda>e p f. Inr 1) (\<lambda>t. t) (\<lambda>t. t) ex_env = Inr [[1], [1]]"
    by (simp add: poses_eval ex_defs)
  have "num_envs ex_env = 2"
    using parts_poses_is_one_tensor[OF wf, of "\<lambda>t. t" "\<lambda>t. t" False "\<lambda>e p f. Inr 1"] nl r
    by blast
  then show ?thesis using wf nl g r by simp
qed

text \<open>
  The claim as stated fails under manual labelling: with \<^verbatim>\<open>manual_label\<close> set the
  reward of the base class returns zeros before it reads the poses, here for a single
  environment. Without the flag the same environment raises on the unpacking.
\<close>

theorem base_reward_defined_for_one_env_under_manual_label:
  "wf_poses ex_single 3 \<and> num_envs ex_single = 1 \<and> manual_label ex_single \<and>
   base_reward (\<lambda>e p f. Inr 1) (\<lambda>t. t) (\<lambda>t. t) ex_single = Inr [[0]] \<and>
   base_reward (\<lambda>e p f. Inr 1) (\<lambda>t. t) (\<lambda>t. t) (ex_single\<lparr>manual_label := False\<rparr>) =
     Inl ValueError"
  by (simp add: poses_eval ex_defs list_all_iff)

section \<open>Frame round trip\<close>

text \<open>
  Claim C7. Converting a homogeneous pose matrix from the AprilTag frame to the simulator
  frame and back yields the matrix again: \<^verbatim>\<open>sim_coord_to_april_coord\<close> after
  \<^verbatim>\<open>april_coord_to_sim_coord\<close> is the identity, because the two constant transform
  matrices are inverses of each other. (In exact arithmetic, for regular calibration
  matrices, as those of rigid transforms are.)
\<close>

theorem frame_round_trip:
  assumes "is_mat4 (franka_from_origin_mat s)" and "is_mat4 (base_tag_from_robot_mat s)"
    and "det (franka_from_origin_mat s) \<noteq> 0" and "det (base_tag_from_robot_mat s) \<noteq> 0"
    and "is_mat4 t"
  shows "sim_coord_to_april_coord s (april_coord_to_sim_coord s t) = Inr t \<and>
         (\<exists>m. sim_to_april_mat s = Inr m \<and>
            matmul m (april_to_sim_mat s) = identity4 \<and>
            matmul (april_to_sim_mat s) m = identity4)"
proof -
  let ?f = "franka_from_origin_mat s" and ?b = "base_tag_from_robot_mat s"
  from linalg_inv4[OF assms(1,3)] obtain fi where
    fi: "linalg_inv ?f = Inr fi" "is_mat4 fi" "matmul fi ?f = identity4" "matmul ?f fi = identity4"
    by blast
  from linalg_inv4[OF assms(2,4)] obtain bi where
    bi: "linalg_inv ?b = Inr bi" "is_mat4 bi" "matmul bi ?b = identity4" "matmul ?b bi = identity4"
    by blast
  have s2a: "sim_to_april_mat s = Inr (matmul bi fi)" by (simp add: sim_to_april_mat_def fi(1) bi(1))
  have fb: "is_mat4 (matmul ?f ?b)" using assms(1,2) by (rule matmul_is_mat4)
  have bt: "is_mat4 (matmul ?b t)" using assms(2,5) by (rule matmul_is_mat4)
  have left: "matmul (matmul bi fi) (matmul ?f ?b) = identity4"
  proof -
    have "matmul (matmul bi fi) (matmul ?f ?b) = matmul bi (matmul fi (matmul ?f ?b))"
      using bi(2) fi(2) fb by (rule matmul_assoc4)
    also have "matmul fi (matmul ?f ?b) = matmul (matmul fi ?f) ?b"
      using matmul_assoc4[OF fi(2) assms(1,2)] by simp
    also have "\<dots> = ?b" using fi(3) matmul_identity_left[OF assms(2)] by simp
    finally show ?thesis using bi(3) by simp
  qed
  have right: "matmul (matmul ?f ?b) (matmul bi fi) = identity4"
  proof -
    have bf: "is_mat4 (matmul bi fi)" using bi(2) fi(2) by (rule matmul_is_mat4)
    have "matmul (matmul ?f ?b) (matmul bi fi) = matmul ?f (matmul ?b (matmul bi fi))"
      using assms(1,2) bf by (rule matmul_assoc4)
    also have "matmul ?b (matmul bi fi) = matmul (matmul ?b bi) fi"
      using matmul_assoc4[OF assms(2) bi(2) fi(2)] by simp
    also have "\<dots> = fi" using bi(4) matmul_identity_left[OF fi(2)] by simp
    finally show ?thesis using fi(4) by simp
  qed
  have "matmul (matmul bi fi) (matmul (matmul ?f ?b) t) =
        matmul (matmul (matmul bi fi) (matmul ?f ?b)) t"
    using matmul_assoc4[OF matmul_is_mat4[OF bi(2) fi(2)] fb assms(5)] by simp
  also have "\<dots> = t" using left matmul_identity_left[OF assms(5)] by simp
  finally have trip: "matmul (matmul bi fi) (matmul (matmul ?f ?b) t) = t" .
  have "sim_coord_to_april_coord s (april_coord_to_sim_coord s t) = Inr t"
    using trip by (simp add: sim_coord_to_april_coord_def april_coord_to_sim_coord_def
        april_to_sim_mat_def s2a)
  then show ?thesis using s2a left right by (simp add: april_to_sim_mat_def)
qed

text \<open>
  In \<open>ex_env\<close> the robot base is a translation of the origin and the base tag a
  quarter turn with an offset: the two transform matrices are as computed, and
  \<open>ex_pose\<close> comes back unchanged.
\<close>

theorem frame_round_trip_witness:
  "is_mat4 (franka_from_origin_mat ex_env) \<and> is_mat4 (base_tag_from_robot_mat ex_env) \<and>
   det (franka_from_origin_mat ex_env) \<noteq> 0 \<and> det (base_tag_from_robot_mat ex_env) \<noteq> 0 \<and>
   is_mat4 ex_pose \<and>
   april_to_sim_mat ex_env = [[0, - 1, 0, - 0.1], [1, 0, 0, 0.1], [0, 0, 1, 0.43], [0, 0, 0, 1]] \<and>
   sim_to_april_mat ex_env = Inr [[0, 1, 0, - 0.1], [- 1, 0, 0, - 0.1], [0, 0, 1, - 0.43], [0, 0, 0, 1]] \<and>
   sim_coord_to_april_coord ex_env (april_coord_to_sim_coord ex_env ex_pose) = Inr ex_pose"
proof -
  have f: "is_mat4 (franka_from_origin_mat ex_env)" and b: "is_mat4 (base_tag_from_robot_mat ex_env)"
    and t: "is_mat4 ex_pose"
    by (simp_all add: is_mat4_def ex_defs)
  have df: "det (franka_from_origin_mat ex_env) \<noteq> 0" and db: "det (base_tag_from_robot_mat ex_env) \<noteq> 0"
    by (simp_all add: ex_defs det4_expl det3_expl del: det.simps)
  have a2s: "april_to_sim_mat ex_env =
      [[0, - 1, 0, - 0.1], [1, 0, 0, 0.1], [0, 0, 1, 0.43], [0, 0, 0, 1]]"
    by (simp add: ex_defs frame_eval del: det.simps)
  have s2a: "sim_to_april_mat ex_env =
      Inr [[0, 1, 0, - 0.1], [- 1, 0, 0, - 0.1], [0, 0, 1, - 0.43], [0, 0, 0, 1]]"
    by (simp add: ex_defs frame_eval del: det.simps)
  have "sim_coord_to_april_coord ex_env (april_coord_to_sim_coord ex_env ex_pose) = Inr ex_pose"
    using frame_round_trip[OF f b df db t] by simp
  then show ?thesis using f b t df db a2s s2a by simp
qed

end
